theory Spec2Isabelle
  imports Complex_Main "HOL-Library.Char_ord" "HOL-Library.List_Lexorder"
    "HOL-Library.Product_Lexorder" "HOL-Library.Multiset"
begin

section \<open>The to-do store of \<^verbatim>\<open>todo.py\<close>\<close>

text \<open>
  \<^verbatim>\<open>todo.py\<close> keeps a task collection in one JSON file and offers the operations
  \<^verbatim>\<open>add_task\<close>, \<^verbatim>\<open>list_tasks\<close>, \<^verbatim>\<open>mark_done\<close>, \<^verbatim>\<open>delete_tasks\<close>, \<^verbatim>\<open>edit_task\<close>,
  \<^verbatim>\<open>clear_tasks\<close> and \<^verbatim>\<open>stats\<close>; each of them loads the whole file, works on the loaded
  dictionary and (for the mutations) writes the whole file back.

  The embedding follows the source function by function.
  \<^item> A Python \<^verbatim>\<open>str\<close> is a \<open>string\<close>: the bytes of its UTF-8 encoding, ordered as lists of
    bytes, which is the order of Python's code-point comparison.
  \<^item> What \<^verbatim>\<open>json.load\<close> returns is a value of \<open>json\<close>. A JSON object is an association
    list; a key is looked up with \<open>map_of\<close>.
  \<^item> An exception is a value of \<open>error\<close>, and a function that can raise returns
    \<open>error + 'a\<close>.
  \<^item> The file is explicit state: an operation takes the file and returns the file it
    leaves behind, also when it raises.
  \<^item> The clock is an input. \<open>clk k\<close> is what
    \<^verbatim>\<open>datetime.utcnow().isoformat(timespec="seconds")\<close> returns at the \<open>k\<close>-th call of
    \<^verbatim>\<open>now_iso\<close> within one operation (counted from 0); functions that call \<^verbatim>\<open>now_iso\<close> pass
    the number of calls made so far along.
\<close>

subsection \<open>JSON values and Python's built-in conversions\<close>

datatype pyfloat = Finite rat | Infinite | NaN

datatype json =
    JNull
  | JBool bool
  | JInt int
  | JFloat pyfloat
  | JStr string
  | JList "json list"
  | JObj "(string \<times> json) list"

datatype error = SystemExit | ValueError | TypeError | KeyError | OverflowError

text \<open>Truth value testing, as \<^verbatim>\<open>bool(v)\<close>, \<^verbatim>\<open>v or w\<close> and \<^verbatim>\<open>if v\<close> do it.\<close>

fun truthy :: "json \<Rightarrow> bool" where
  "truthy JNull = False"
| "truthy (JBool b) = b"
| "truthy (JInt n) = (n \<noteq> 0)"
| "truthy (JFloat (Finite q)) = (q \<noteq> 0)"
| "truthy (JFloat Infinite) = True"
| "truthy (JFloat NaN) = True"
| "truthy (JStr s) = (s \<noteq> [])"
| "truthy (JList xs) = (xs \<noteq> [])"
| "truthy (JObj kvs) = (kvs \<noteq> [])"

text \<open>
  \<^verbatim>\<open>for t in v\<close>: a list yields its elements, a dictionary its keys and a string its
  characters (each a string of its own); nothing else can be iterated.
\<close>

fun iter :: "json \<Rightarrow> error + json list" where
  "iter (JList xs) = Inr xs"
| "iter (JObj kvs) = Inr (map (\<lambda>kv. JStr (fst kv)) kvs)"
| "iter (JStr s) = Inr (map (\<lambda>c. JStr [c]) s)"
| "iter v = Inl TypeError"

subsection \<open>Tasks\<close>

text \<open>
  The dataclass \<^verbatim>\<open>Task\<close>. \<^verbatim>\<open>due\<close> and \<^verbatim>\<open>completed_at\<close> are annotated \<^verbatim>\<open>Optional[str]\<close>, but
  \<^verbatim>\<open>from_dict\<close> passes whatever the file holds through, so they are JSON values here
  (\<open>JNull\<close> is \<^verbatim>\<open>None\<close>). The field \<^verbatim>\<open>id\<close> is named \<open>task_id\<close>.

  After \<^verbatim>\<open>load_data\<close> every element of \<^verbatim>\<open>data["tasks"]\<close> is a dictionary
  \<^verbatim>\<open>asdict(Task(...))\<close>, with exactly the six fields of the dataclass; the model keeps such a
  dictionary as the record and writes it out with \<open>asdict\<close>.
\<close>

record task =
  task_id :: int
  title :: string
  completed :: bool
  created_at :: string
  due :: json
  completed_at :: json

definition asdict :: "task \<Rightarrow> json" where
  "asdict t = JObj [(''id'', JInt (task_id t)), (''title'', JStr (title t)),
     (''completed'', JBool (completed t)), (''created_at'', JStr (created_at t)),
     (''due'', due t), (''completed_at'', completed_at t)]"

text \<open>
  The interpreter and the process the module runs in. \<open>import_utc\<close> is the reading of the
  clock at the moment the module was imported: the class body of \<^verbatim>\<open>Task\<close> evaluates
  \<^verbatim>\<open>created_at: str = now_iso()\<close> once, at that moment. \<open>int_of_str\<close> is the built-in
  \<^verbatim>\<open>int\<close> on a \<^verbatim>\<open>str\<close> (\<open>None\<close> where it raises \<^verbatim>\<open>ValueError\<close>), and \<open>str_of\<close> is
  the built-in \<^verbatim>\<open>str\<close> on a value that is not a \<^verbatim>\<open>str\<close>. \<open>list_sort\<close> is the built-in
  \<^verbatim>\<open>list.sort\<close> on a list of tasks given with their keys, with the flag \<^verbatim>\<open>reverse\<close>; the
  model asks it only about keys that it does not order itself (see \<open>py_sort\<close>). None of
  the three is code of this program.
\<close>

record runtime =
  import_utc :: string
  int_of_str :: "string \<Rightarrow> int option"
  str_of :: "json \<Rightarrow> string"
  list_sort :: "bool \<Rightarrow> (json \<times> task) list \<Rightarrow> error + task list"

type_synonym clock = "nat \<Rightarrow> string"

definition now_iso :: "string \<Rightarrow> string" where
  "now_iso utc = utc @ ''Z''"

text \<open>\<^verbatim>\<open>int(v)\<close>: a float is truncated towards zero.\<close>

fun py_int :: "runtime \<Rightarrow> json \<Rightarrow> error + int" where
  "py_int rt JNull = Inl TypeError"
| "py_int rt (JBool b) = Inr (if b then 1 else 0)"
| "py_int rt (JInt n) = Inr n"
| "py_int rt (JFloat (Finite q)) = Inr (if 0 \<le> q then \<lfloor>q\<rfloor> else \<lceil>q\<rceil>)"
| "py_int rt (JFloat Infinite) = Inl OverflowError"
| "py_int rt (JFloat NaN) = Inl ValueError"
| "py_int rt (JStr s) = (case int_of_str rt s of None \<Rightarrow> Inl ValueError | Some n \<Rightarrow> Inr n)"
| "py_int rt (JList xs) = Inl TypeError"
| "py_int rt (JObj kvs) = Inl TypeError"

text \<open>\<^verbatim>\<open>str(v)\<close>: a \<^verbatim>\<open>str\<close> is returned as it is.\<close>

fun py_str :: "runtime \<Rightarrow> json \<Rightarrow> string" where
  "py_str rt (JStr s) = s"
| "py_str rt v = str_of rt v"

text \<open>\<^verbatim>\<open>d.get(key)\<close> and \<^verbatim>\<open>d.get(key, False)\<close> on a dictionary.\<close>

definition get_or :: "(string \<times> json) list \<Rightarrow> string \<Rightarrow> json \<Rightarrow> json" where
  "get_or kvs key dflt = (case map_of kvs key of None \<Rightarrow> dflt | Some v \<Rightarrow> v)"

text \<open>
  \<^verbatim>\<open>Task.from_dict(d)\<close>. The arguments of the constructor are evaluated in order:
  \<^verbatim>\<open>d["id"]\<close> raises \<^verbatim>\<open>TypeError\<close> when \<^verbatim>\<open>d\<close> is not a dictionary and \<^verbatim>\<open>KeyError\<close> when the
  key is missing, then \<^verbatim>\<open>int\<close> may raise, then \<^verbatim>\<open>d["title"]\<close> may raise \<^verbatim>\<open>KeyError\<close>.
  \<^verbatim>\<open>now_iso()\<close> is called only when \<^verbatim>\<open>d.get("created_at")\<close> is falsy.
\<close>

fun from_dict :: "runtime \<Rightarrow> clock \<Rightarrow> nat \<Rightarrow> json \<Rightarrow> error + (task \<times> nat)" where
  "from_dict rt clk k (JObj kvs) =
     (case map_of kvs ''id'' of
        None \<Rightarrow> Inl KeyError
      | Some iv \<Rightarrow>
         (case py_int rt iv of
            Inl e \<Rightarrow> Inl e
          | Inr i \<Rightarrow>
             (case map_of kvs ''title'' of
                None \<Rightarrow> Inl KeyError
              | Some tv \<Rightarrow>
                  let c = get_or kvs ''created_at'' JNull
                  in Inr (\<lparr>task_id = i,
                           title = py_str rt tv,
                           completed = truthy (get_or kvs ''completed'' (JBool False)),
                           created_at = (if truthy c then py_str rt c else now_iso (clk k)),
                           due = get_or kvs ''due'' JNull,
                           completed_at = get_or kvs ''completed_at'' JNull\<rparr>,
                          if truthy c then k else Suc k))))"
| "from_dict rt clk k v = Inl TypeError"

subsection \<open>The file, \<^verbatim>\<open>load_data\<close> and \<^verbatim>\<open>save_data\<close>\<close>

text \<open>
  \<^verbatim>\<open>DATA_FILE\<close> does not exist (\<open>Absent\<close>), or holds text on which \<^verbatim>\<open>json.load\<close> raises
  \<^verbatim>\<open>JSONDecodeError\<close> (\<open>Unparseable\<close>), or holds the text of a JSON value (\<open>Parsed\<close>).
  \<^verbatim>\<open>json.dump\<close> followed by \<^verbatim>\<open>json.load\<close> gives the value back, so a write is modelled by
  the value written.
\<close>

datatype data_file = Absent | Unparseable | Parsed json

text \<open>
  The dictionary \<^verbatim>\<open>data\<close> that \<^verbatim>\<open>load_data\<close> returns: \<^verbatim>\<open>data["next_id"]\<close> (left as the file has
  it), \<^verbatim>\<open>data["tasks"]\<close> and the other keys of the file's root object, which are carried
  along and written back. The position of a key in the dictionary is not kept.
\<close>

record data =
  next_id :: json
  tasks :: "task list"
  rest :: "(string \<times> json) list"

text \<open>The list comprehension \<^verbatim>\<open>[asdict(Task.from_dict(t)) for t in data["tasks"]]\<close>.\<close>

fun from_dicts :: "runtime \<Rightarrow> clock \<Rightarrow> nat \<Rightarrow> json list \<Rightarrow> error + (task list \<times> nat)" where
  "from_dicts rt clk k [] = Inr ([], k)"
| "from_dicts rt clk k (r # rs) =
     (case from_dict rt clk k r of
        Inl e \<Rightarrow> Inl e
      | Inr (t, k') \<Rightarrow>
         (case from_dicts rt clk k' rs of
            Inl e \<Rightarrow> Inl e
          | Inr (ts, k'') \<Rightarrow> Inr (t # ts, k'')))"

definition other_keys :: "(string \<times> json) list \<Rightarrow> (string \<times> json) list" where
  "other_keys kvs = filter (\<lambda>kv. fst kv \<noteq> ''next_id'' \<and> fst kv \<noteq> ''tasks'') kvs"

fun load_data :: "runtime \<Rightarrow> clock \<Rightarrow> data_file \<Rightarrow> error + (data \<times> nat)" where
  "load_data rt clk Absent = Inr (\<lparr>next_id = JInt 1, tasks = [], rest = []\<rparr>, 0)"
| "load_data rt clk Unparseable = Inl SystemExit"
| "load_data rt clk (Parsed (JObj kvs)) =
     (case iter (get_or kvs ''tasks'' (JList [])) of
        Inl e \<Rightarrow> Inl e
      | Inr rs \<Rightarrow>
         (case from_dicts rt clk 0 rs of
            Inl e \<Rightarrow> Inl e
          | Inr (ts, k) \<Rightarrow>
              Inr (\<lparr>next_id = get_or kvs ''next_id'' (JInt 1), tasks = ts,
                    rest = other_keys kvs\<rparr>, k)))"
| "load_data rt clk (Parsed v) = Inl ValueError"

definition save_data :: "data \<Rightarrow> data_file" where
  "save_data d =
     Parsed (JObj ((''next_id'', next_id d) # (''tasks'', JList (map asdict (tasks d))) # rest d))"

subsection \<open>The operations\<close>

text \<open>
  An operation that writes returns its result (or the exception it raises) together with
  the file it leaves behind: the file is the old one when the exception is raised before
  \<^verbatim>\<open>save_data\<close> is reached.
\<close>

definition opt_str :: "string option \<Rightarrow> json" where
  "opt_str s = (case s of None \<Rightarrow> JNull | Some x \<Rightarrow> JStr x)"

text \<open>
  \<^verbatim>\<open>add_task(title, due)\<close>. \<^verbatim>\<open>Task(id=tid, title=title, due=due)\<close> takes the defaults of
  the dataclass for the other fields; the default of \<^verbatim>\<open>created_at\<close> is the value
  \<^verbatim>\<open>now_iso()\<close> had when the class was defined.
\<close>

definition add_task ::
  "runtime \<Rightarrow> clock \<Rightarrow> string \<Rightarrow> string option \<Rightarrow> data_file \<Rightarrow> (error + task) \<times> data_file" where
  "add_task rt clk new_title new_due f =
     (case load_data rt clk f of
        Inl e \<Rightarrow> (Inl e, f)
      | Inr (d, k) \<Rightarrow>
         (case py_int rt (next_id d) of
            Inl e \<Rightarrow> (Inl e, f)
          | Inr tid \<Rightarrow>
              let t = \<lparr>task_id = tid, title = new_title, completed = False,
                       created_at = now_iso (import_utc rt), due = opt_str new_due,
                       completed_at = JNull\<rparr>
              in (Inr t, save_data (d\<lparr>tasks := tasks d @ [t], next_id := JInt (tid + 1)\<rparr>))))"

text \<open>
  The keys of \<^verbatim>\<open>tasks.sort\<close> in \<^verbatim>\<open>list_tasks\<close>. \<^verbatim>\<open>t.due or "9999-12-31"\<close> is the sentinel
  for every falsy \<^verbatim>\<open>due\<close>. \<open>pending_raw_key\<close> and \<open>done_raw_key\<close> are the keys as Python
  builds them, a tuple written as a list (Python orders both lexicographically).
\<close>

definition or_else :: "json \<Rightarrow> string \<Rightarrow> json" where
  "or_else v s = (if truthy v then v else JStr s)"

definition pending_raw_key :: "task \<Rightarrow> json" where
  "pending_raw_key t =
     JList [JList [JBool (due t = JNull), or_else (due t) ''9999-12-31''], JStr (created_at t)]"

definition done_raw_key :: "task \<Rightarrow> json" where
  "done_raw_key t = or_else (completed_at t) []"

text \<open>
  Python orders two strings by their characters and two numbers (\<^verbatim>\<open>bool\<close>, \<^verbatim>\<open>int\<close>, finite
  \<^verbatim>\<open>float\<close>) by their values, \<^verbatim>\<open>True\<close> being 1 and \<^verbatim>\<open>False\<close> 0; it raises \<^verbatim>\<open>TypeError\<close> for
  a string and a number. \<open>atom\<close> maps the strings and the numbers into one ordered type
  that agrees with Python's order on values that are all strings or all numbers, which is
  what \<open>same_class\<close> says of a list of values. Other values (\<^verbatim>\<open>None\<close>, lists,
  dictionaries, infinities and NaN) are not ordered by the model.
\<close>

fun as_str :: "json \<Rightarrow> string option" where
  "as_str (JStr s) = Some s"
| "as_str v = None"

fun num_of :: "json \<Rightarrow> rat option" where
  "num_of (JBool b) = Some (if b then 1 else 0)"
| "num_of (JInt n) = Some (of_int n)"
| "num_of (JFloat (Finite q)) = Some q"
| "num_of v = None"

definition atom :: "json \<Rightarrow> rat \<times> string" where
  "atom v = (case as_str v of
               Some s \<Rightarrow> (0, s)
             | None \<Rightarrow> (case num_of v of Some q \<Rightarrow> (q, []) | None \<Rightarrow> (0, [])))"

definition same_class :: "json list \<Rightarrow> bool" where
  "same_class vs \<longleftrightarrow>
     list_all (\<lambda>v. as_str v \<noteq> None) vs \<or> list_all (\<lambda>v. num_of v \<noteq> None) vs"

text \<open>
  The keys as the model orders them. In the key of the pending listing the first
  component decides between a task with and a task without a due date, whatever the due
  date is; the due dates of two dated tasks are compared, so the model orders the keys of a
  list when the due dates of its dated tasks are all strings or all numbers
  (\<open>pending_ordered\<close>; an undated task has the sentinel, a string). The keys of the done
  listing are ordered when they are all strings or all numbers (\<open>done_ordered\<close>).
\<close>

definition pending_key :: "task \<Rightarrow> (bool \<times> rat \<times> string) \<times> string" where
  "pending_key t = ((due t = JNull, atom (or_else (due t) ''9999-12-31'')), created_at t)"

definition pending_ordered :: "task list \<Rightarrow> bool" where
  "pending_ordered ts \<longleftrightarrow>
     same_class (map (\<lambda>t. or_else (due t) ''9999-12-31'') (filter (\<lambda>t. due t \<noteq> JNull) ts))"

definition done_key :: "task \<Rightarrow> rat \<times> string" where
  "done_key t = atom (done_raw_key t)"

definition done_ordered :: "task list \<Rightarrow> bool" where
  "done_ordered ts \<longleftrightarrow> same_class (map done_raw_key ts)"

text \<open>
  \<^verbatim>\<open>list.sort(key=..., reverse=...)\<close>: a stable sort, ascending in the key; with
  \<^verbatim>\<open>reverse=True\<close> descending, elements with equal keys still in their original order.
  A list of fewer than two elements is returned without any comparison. When the model
  orders the keys (\<open>ordered\<close>), every comparison the built-in can make succeeds and the
  result is the stable sort, which the model computes. Otherwise the outcome depends on the
  comparisons the built-in's algorithm makes: it raises \<^verbatim>\<open>TypeError\<close> when it comes to
  compare two values that Python does not order, and returns the list in some order when it
  meets no such pair. That case is \<open>list_sort\<close> of the runtime, which receives the tasks
  with their Python keys.
\<close>

definition py_sort ::
  "runtime \<Rightarrow> (task \<Rightarrow> json) \<Rightarrow> bool \<Rightarrow> (task \<Rightarrow> 'k::linorder) \<Rightarrow> bool \<Rightarrow> task list
     \<Rightarrow> error + task list" where
  "py_sort rt raw_key ordered key reverse xs =
     (if length xs \<le> 1 then Inr xs
      else if ordered
      then Inr (if reverse then rev (sort_key key (rev xs)) else sort_key key xs)
      else list_sort rt reverse (map (\<lambda>x. (raw_key x, x)) xs))"

definition list_tasks :: "runtime \<Rightarrow> clock \<Rightarrow> string \<Rightarrow> data_file \<Rightarrow> error + task list" where
  "list_tasks rt clk kind f =
     (case load_data rt clk f of
        Inl e \<Rightarrow> Inl e
      | Inr (d, k) \<Rightarrow>
         (case from_dicts rt clk k (map asdict (tasks d)) of
            Inl e \<Rightarrow> Inl e
          | Inr (ts, k') \<Rightarrow>
              let ts' = (if kind = ''pending'' then filter (\<lambda>t. \<not> completed t) ts
                         else if kind = ''done'' then filter completed ts
                         else ts)
              in if kind = ''pending'' \<or> kind = ''all'' then py_sort rt pending_raw_key (pending_ordered ts') pending_key False ts'
                 else if kind = ''done''
                 then py_sort rt done_raw_key (done_ordered ts') done_key True ts'
                 else Inr ts'))"

text \<open>
  The loop of \<^verbatim>\<open>mark_done\<close>: it returns the list \<^verbatim>\<open>data["tasks"]\<close> as the loop leaves it,
  the list \<^verbatim>\<open>updated\<close> and the number of calls of \<^verbatim>\<open>now_iso\<close> made.
\<close>

fun mark_loop ::
  "runtime \<Rightarrow> clock \<Rightarrow> nat \<Rightarrow> int list \<Rightarrow> task list \<Rightarrow> error + (task list \<times> task list \<times> nat)" where
  "mark_loop rt clk k ids [] = Inr ([], [], k)"
| "mark_loop rt clk k ids (raw # rs) =
     (if task_id raw \<in> set ids \<and> \<not> completed raw
      then let raw' = raw\<lparr>completed := True, completed_at := JStr (now_iso (clk k))\<rparr>
           in (case from_dict rt clk (Suc k) (asdict raw') of
                 Inl e \<Rightarrow> Inl e
               | Inr (t, k') \<Rightarrow>
                  (case mark_loop rt clk k' ids rs of
                     Inl e \<Rightarrow> Inl e
                   | Inr (rs', updated, k'') \<Rightarrow> Inr (raw' # rs', t # updated, k'')))
      else (case mark_loop rt clk k ids rs of
              Inl e \<Rightarrow> Inl e
            | Inr (rs', updated, k'') \<Rightarrow> Inr (raw # rs', updated, k'')))"

definition mark_done ::
  "runtime \<Rightarrow> clock \<Rightarrow> int list \<Rightarrow> data_file \<Rightarrow> (error + task list) \<times> data_file" where
  "mark_done rt clk ids f =
     (case load_data rt clk f of
        Inl e \<Rightarrow> (Inl e, f)
      | Inr (d, k) \<Rightarrow>
         (case mark_loop rt clk k ids (tasks d) of
            Inl e \<Rightarrow> (Inl e, f)
          | Inr (ts, updated, k') \<Rightarrow> (Inr updated, save_data (d\<lparr>tasks := ts\<rparr>))))"

definition delete_tasks ::
  "runtime \<Rightarrow> clock \<Rightarrow> int list \<Rightarrow> data_file \<Rightarrow> (error + int) \<times> data_file" where
  "delete_tasks rt clk ids f =
     (case load_data rt clk f of
        Inl e \<Rightarrow> (Inl e, f)
      | Inr (d, k) \<Rightarrow>
          let len_before = int (length (tasks d));
              ts = filter (\<lambda>t. task_id t \<notin> set ids) (tasks d);
              len_after = int (length ts)
          in (Inr (len_before - len_after), save_data (d\<lparr>tasks := ts\<rparr>)))"

text \<open>The body of the loop of \<^verbatim>\<open>edit_task\<close>, on the dictionary \<^verbatim>\<open>raw\<close> it has found.\<close>

definition edit_raw :: "string option \<Rightarrow> string option \<Rightarrow> bool \<Rightarrow> bool \<Rightarrow> task \<Rightarrow> task" where
  "edit_raw new_title new_due clear_due undone raw =
     (let r1 = (case new_title of None \<Rightarrow> raw | Some s \<Rightarrow> raw\<lparr>title := s\<rparr>);
          r2 = (if clear_due then r1\<lparr>due := JNull\<rparr>
                else (case new_due of None \<Rightarrow> r1 | Some s \<Rightarrow> r1\<lparr>due := JStr s\<rparr>))
      in if undone \<and> completed r2 then r2\<lparr>completed := False, completed_at := JNull\<rparr> else r2)"

text \<open>
  The loop of \<^verbatim>\<open>edit_task\<close>: the first dictionary with the given id is changed in place and
  the loop is left; \<open>None\<close> when the loop runs to its end.
\<close>

fun edit_loop :: "(task \<Rightarrow> task) \<Rightarrow> int \<Rightarrow> task list \<Rightarrow> (task \<times> task list) option" where
  "edit_loop upd i [] = None"
| "edit_loop upd i (raw # rs) =
     (if task_id raw = i then Some (upd raw, upd raw # rs)
      else (case edit_loop upd i rs of
              None \<Rightarrow> None
            | Some (raw', rs') \<Rightarrow> Some (raw', raw # rs')))"

definition edit_task ::
  "runtime \<Rightarrow> clock \<Rightarrow> int \<Rightarrow> string option \<Rightarrow> string option \<Rightarrow> bool \<Rightarrow> bool \<Rightarrow> data_file
     \<Rightarrow> (error + task option) \<times> data_file" where
  "edit_task rt clk i new_title new_due clear_due undone f =
     (case load_data rt clk f of
        Inl e \<Rightarrow> (Inl e, f)
      | Inr (d, k) \<Rightarrow>
         (case edit_loop (edit_raw new_title new_due clear_due undone) i (tasks d) of
            None \<Rightarrow> (Inr None, f)
          | Some (raw, ts) \<Rightarrow>
              let f' = save_data (d\<lparr>tasks := ts\<rparr>)
              in (case from_dict rt clk k (asdict raw) of
                    Inl e \<Rightarrow> (Inl e, f')
                  | Inr (t, k') \<Rightarrow> (Inr (Some t), f'))))"

definition clear_tasks ::
  "runtime \<Rightarrow> clock \<Rightarrow> string \<Rightarrow> data_file \<Rightarrow> (error + int) \<times> data_file" where
  "clear_tasks rt clk mode f =
     (case load_data rt clk f of
        Inl e \<Rightarrow> (Inl e, f)
      | Inr (d, k) \<Rightarrow>
          let len_before = int (length (tasks d))
          in if mode = ''done''
             then let d' = d\<lparr>tasks := filter (\<lambda>t. \<not> completed t) (tasks d)\<rparr>
                  in (Inr (len_before - int (length (tasks d'))), save_data d')
             else if mode = ''all''
             then let d' = d\<lparr>tasks := [], next_id := JInt 1\<rparr>
                  in (Inr (len_before - int (length (tasks d'))), save_data d')
             else (Inl ValueError, f))"

text \<open>
  \<^verbatim>\<open>stats()\<close>; \<open>today\<close> is \<^verbatim>\<open>date.today().isoformat()\<close>. In the loop, \<^verbatim>\<open>t["due"] < today\<close> is
  evaluated for a pending task with a truthy \<^verbatim>\<open>due\<close> and raises \<^verbatim>\<open>TypeError\<close> when that is
  not a string.
\<close>

record counts =
  total :: int
  pending :: int
  finished :: int
  overdue :: int

fun overdue_loop :: "string \<Rightarrow> int \<Rightarrow> task list \<Rightarrow> error + int" where
  "overdue_loop today n [] = Inr n"
| "overdue_loop today n (t # ts) =
     (if \<not> completed t \<and> truthy (due t)
      then (case due t of
              JStr s \<Rightarrow> overdue_loop today (if s < today then n + 1 else n) ts
            | _ \<Rightarrow> Inl TypeError)
      else overdue_loop today n ts)"

definition stats :: "runtime \<Rightarrow> clock \<Rightarrow> string \<Rightarrow> data_file \<Rightarrow> error + counts" where
  "stats rt clk today f =
     (case load_data rt clk f of
        Inl e \<Rightarrow> Inl e
      | Inr (d, k) \<Rightarrow>
          let n = int (length (tasks d));
              m = int (length (filter completed (tasks d)))
          in (case overdue_loop today 0 (tasks d) of
                Inl e \<Rightarrow> Inl e
              | Inr v \<Rightarrow> Inr \<lparr>total = n, pending = n - m, finished = m, overdue = v\<rparr>))"

subsection \<open>Notions used in the statements\<close>

text \<open>
  Python's \<^verbatim>\<open>str\<close> never returns the empty string for a truthy JSON value that is not a
  string (a number, \<^verbatim>\<open>True\<close>, a non-empty list or dictionary). Statements that need this of
  the built-in assume it.
\<close>

definition str_nonempty :: "runtime \<Rightarrow> bool" where
  "str_nonempty rt \<longleftrightarrow> (\<forall>v. truthy v \<longrightarrow> str_of rt v \<noteq> [])"

text \<open>
  What \<^verbatim>\<open>load_data\<close> establishes: every \<^verbatim>\<open>created_at\<close> is a non-empty string, and the keys
  carried along are not \<^verbatim>\<open>next_id\<close> or \<^verbatim>\<open>tasks\<close>.
\<close>

definition wf_data :: "data \<Rightarrow> bool" where
  "wf_data d \<longleftrightarrow> list_all (\<lambda>t. created_at t \<noteq> []) (tasks d) \<and> other_keys (rest d) = rest d"

text \<open>
  A runtime and a clock for the examples. The examples have integers as ids, strings as
  titles and sort keys that the model orders, so they never reach the three built-ins of
  this runtime.
\<close>

definition rt0 :: runtime where
  "rt0 = \<lparr>import_utc = ''2025-08-30T09:00:00'', int_of_str = (\<lambda>s. None), str_of = (\<lambda>v. ''?''),
     list_sort = (\<lambda>reverse kxs. Inl TypeError)\<rparr>"

definition clk0 :: clock where
  "clk0 = (\<lambda>k. ''2025-09-01T12:00:00'')"

text \<open>A file with one completed and one pending task, for the examples.\<close>

definition file0 :: data_file where
  "file0 = Parsed (JObj [(''next_id'', JInt 6),
     (''tasks'', JList [
        JObj [(''id'', JInt 4), (''title'', JStr ''Buy milk''), (''completed'', JBool True),
              (''created_at'', JStr ''2025-08-01T10:00:00Z''), (''due'', JStr ''2025-09-01''),
              (''completed_at'', JStr ''2025-08-02T08:30:00Z'')],
        JObj [(''id'', JInt 5), (''title'', JStr ''Call Bob''), (''completed'', JBool False),
              (''created_at'', JStr ''2025-08-03T10:00:00Z''), (''due'', JNull),
              (''completed_at'', JNull)]])])"

definition task4 :: task where
  "task4 = \<lparr>task_id = 4, title = ''Buy milk'', completed = True,
     created_at = ''2025-08-01T10:00:00Z'', due = JStr ''2025-09-01'',
     completed_at = JStr ''2025-08-02T08:30:00Z''\<rparr>"

definition task5 :: task where
  "task5 = \<lparr>task_id = 5, title = ''Call Bob'', completed = False,
     created_at = ''2025-08-03T10:00:00Z'', due = JNull, completed_at = JNull\<rparr>"

definition data0 :: data where
  "data0 = \<lparr>next_id = JInt 6, tasks = [task4, task5], rest = []\<rparr>"

text \<open>
  The \<^verbatim>\<open>due\<close> field of a task as the data model types it: \<^verbatim>\<open>None\<close>, or a date, which is
  a non-empty string.
\<close>

definition due_ok :: "task \<Rightarrow> bool" where
  "due_ok t \<longleftrightarrow> (case due t of JNull \<Rightarrow> True | JStr s \<Rightarrow> s \<noteq> [] | _ \<Rightarrow> False)"

text \<open>
  A file with pending tasks due on 2025-08-31, due on 2025-09-01 and without a due date,
  and a completed task.
\<close>

definition file1 :: data_file where
  "file1 = Parsed (JObj [(''next_id'', JInt 5),
     (''tasks'', JList [
        JObj [(''id'', JInt 1), (''title'', JStr ''late''), (''completed'', JBool False),
              (''created_at'', JStr ''2025-08-01T10:00:00Z''), (''due'', JStr ''2025-08-31''),
              (''completed_at'', JNull)],
        JObj [(''id'', JInt 2), (''title'', JStr ''today''), (''completed'', JBool False),
              (''created_at'', JStr ''2025-08-01T10:00:00Z''), (''due'', JStr ''2025-09-01''),
              (''completed_at'', JNull)],
        JObj [(''id'', JInt 3), (''title'', JStr ''undated''), (''completed'', JBool False),
              (''created_at'', JStr ''2025-08-01T10:00:00Z''), (''due'', JNull),
              (''completed_at'', JNull)],
        JObj [(''id'', JInt 4), (''title'', JStr ''done late''), (''completed'', JBool True),
              (''created_at'', JStr ''2025-08-01T10:00:00Z''), (''due'', JStr ''2025-08-01''),
              (''completed_at'', JStr ''2025-08-02T08:30:00Z'')]])])"

definition data1 :: data where
  "data1 = \<lparr>next_id = JInt 5,
     tasks = [
       \<lparr>task_id = 1, title = ''late'', completed = False, created_at = ''2025-08-01T10:00:00Z'',
         due = JStr ''2025-08-31'', completed_at = JNull\<rparr>,
       \<lparr>task_id = 2, title = ''today'', completed = False, created_at = ''2025-08-01T10:00:00Z'',
         due = JStr ''2025-09-01'', completed_at = JNull\<rparr>,
       \<lparr>task_id = 3, title = ''undated'', completed = False, created_at = ''2025-08-01T10:00:00Z'',
         due = JNull, completed_at = JNull\<rparr>,
       \<lparr>task_id = 4, title = ''done late'', completed = True, created_at = ''2025-08-01T10:00:00Z'',
         due = JStr ''2025-08-01'', completed_at = JStr ''2025-08-02T08:30:00Z''\<rparr>],
     rest = []\<rparr>"

text \<open>
  The key the listing is ordered by, on a task whose due date is absent or a date: the pair
  of "has no due date" and the due date (the sentinel when there is none), then
  \<^verbatim>\<open>created_at\<close>. Pairs are ordered lexicographically, \<open>False\<close> before \<open>True\<close>.
\<close>

definition due_sort_key :: "task \<Rightarrow> (bool \<times> string) \<times> string" where
  "due_sort_key t =
     ((due t = JNull, (case due t of JStr s \<Rightarrow> s | _ \<Rightarrow> ''9999-12-31'')), created_at t)"

text \<open>
  A file with four pending tasks: one without a due date, one due in February and two
  due on the same day in January.
\<close>

definition file2 :: data_file where
  "file2 = Parsed (JObj [(''next_id'', JInt 5),
     (''tasks'', JList [
        JObj [(''id'', JInt 1), (''title'', JStr ''undated''), (''completed'', JBool False),
              (''created_at'', JStr ''2024-12-01T10:00:00Z''), (''due'', JNull),
              (''completed_at'', JNull)],
        JObj [(''id'', JInt 2), (''title'', JStr ''february''), (''completed'', JBool False),
              (''created_at'', JStr ''2024-12-02T10:00:00Z''), (''due'', JStr ''2025-02-01''),
              (''completed_at'', JNull)],
        JObj [(''id'', JInt 3), (''title'', JStr ''january, later''), (''completed'', JBool False),
              (''created_at'', JStr ''2024-12-04T10:00:00Z''), (''due'', JStr ''2025-01-01''),
              (''completed_at'', JNull)],
        JObj [(''id'', JInt 4), (''title'', JStr ''january''), (''completed'', JBool False),
              (''created_at'', JStr ''2024-12-03T10:00:00Z''), (''due'', JStr ''2025-01-01''),
              (''completed_at'', JNull)]])])"

definition undated :: task where
  "undated = \<lparr>task_id = 1, title = ''undated'', completed = False,
     created_at = ''2024-12-01T10:00:00Z'', due = JNull, completed_at = JNull\<rparr>"

definition february :: task where
  "february = \<lparr>task_id = 2, title = ''february'', completed = False,
     created_at = ''2024-12-02T10:00:00Z'', due = JStr ''2025-02-01'', completed_at = JNull\<rparr>"

definition january_later :: task where
  "january_later = \<lparr>task_id = 3, title = ''january, later'', completed = False,
     created_at = ''2024-12-04T10:00:00Z'', due = JStr ''2025-01-01'', completed_at = JNull\<rparr>"

definition january :: task where
  "january = \<lparr>task_id = 4, title = ''january'', completed = False,
     created_at = ''2024-12-03T10:00:00Z'', due = JStr ''2025-01-01'', completed_at = JNull\<rparr>"

definition data2 :: data where
  "data2 = \<lparr>next_id = JInt 5, tasks = [undated, february, january_later, january], rest = []\<rparr>"

subsection \<open>Sequences of operations\<close>

text \<open>
  The front ends call the mutating operations one after the other on the same file. A
  \<open>call\<close> is one such call with its arguments; \<open>step\<close> performs it on the file and keeps
  the list of the ids that \<open>add_task\<close> has returned since the last successful
  \<^verbatim>\<open>clear_tasks("all")\<close>, in call order; \<open>run\<close> performs a list of calls, each with the
  clock of its own.
\<close>

datatype call =
    Add string "string option"
  | MarkDone "int list"
  | Delete "int list"
  | Edit int "string option" "string option" bool bool
  | Clear string

fun step :: "runtime \<Rightarrow> clock \<Rightarrow> call \<Rightarrow> int list \<times> data_file \<Rightarrow> int list \<times> data_file" where
  "step rt clk (Add new_title new_due) (issued, f) =
     (case add_task rt clk new_title new_due f of
        (Inr t, f') \<Rightarrow> (issued @ [task_id t], f')
      | (Inl e, f') \<Rightarrow> (issued, f'))"
| "step rt clk (MarkDone ids) (issued, f) = (issued, snd (mark_done rt clk ids f))"
| "step rt clk (Delete ids) (issued, f) = (issued, snd (delete_tasks rt clk ids f))"
| "step rt clk (Edit i new_title new_due clear_due undone) (issued, f) =
     (issued, snd (edit_task rt clk i new_title new_due clear_due undone f))"
| "step rt clk (Clear mode) (issued, f) =
     (case clear_tasks rt clk mode f of
        (Inr n, f') \<Rightarrow> (if mode = ''all'' then [] else issued, f')
      | (Inl e, f') \<Rightarrow> (issued, f'))"

fun run :: "runtime \<Rightarrow> (clock \<times> call) list \<Rightarrow> int list \<times> data_file \<Rightarrow> int list \<times> data_file" where
  "run rt [] s = s"
| "run rt ((clk, c) # cs) s = run rt cs (step rt clk c s)"

text \<open>
  The task has \<^verbatim>\<open>completed_at\<close> exactly when it is completed.
\<close>

definition timestamped :: "task \<Rightarrow> bool" where
  "timestamped t \<longleftrightarrow> (completed t \<longleftrightarrow> completed_at t \<noteq> JNull)"

text \<open>
  The collections the operations produce from the empty one after \<open>n\<close> ids have been
  issued: \<^verbatim>\<open>next_id\<close> is \<open>n + 1\<close>, the ids of the tasks increase strictly along the list
  and lie between 1 and \<open>n\<close>, and every task is \<open>timestamped\<close>.
\<close>

definition consistent :: "int \<Rightarrow> data \<Rightarrow> bool" where
  "consistent n d \<longleftrightarrow> 0 \<le> n \<and> wf_data d \<and> next_id d = JInt (n + 1)
     \<and> sorted_wrt (<) (map task_id (tasks d))
     \<and> list_all (\<lambda>t. 1 \<le> task_id t \<and> task_id t \<le> n) (tasks d)
     \<and> list_all timestamped (tasks d)"

text \<open>
  \<open>load_data\<close> returns \<open>d\<close> from the file, without reading the clock.
\<close>

definition loads_as :: "runtime \<Rightarrow> data_file \<Rightarrow> data \<Rightarrow> bool" where
  "loads_as rt f d \<longleftrightarrow> (\<forall>clk. load_data rt clk f = Inr (d, 0))"

text \<open>
  The invariant of \<open>run\<close>: the ids issued since the last full clear are 1, 2, ... in call
  order, and the file loads as a \<open>consistent\<close> collection.
\<close>

definition run_inv :: "runtime \<Rightarrow> int list \<times> data_file \<Rightarrow> bool" where
  "run_inv rt s \<longleftrightarrow> fst s = [1..int (length (fst s))]
     \<and> (\<exists>d. loads_as rt (snd s) d \<and> consistent (int (length (fst s))) d)"

text \<open>
  Two sequences of calls for the examples.
\<close>

definition calls0 :: "(clock \<times> call) list" where
  "calls0 = [(clk0, Add ''a'' None), (clk0, Add ''b'' (Some ''2025-10-01'')),
     (clk0, MarkDone [2]), (clk0, Delete [1]), (clk0, Clear ''done''), (clk0, Add ''c'' None),
     (clk0, MarkDone [3]), (clk0, Edit 3 None None False True)]"

definition final0 :: data_file where
  "final0 = save_data \<lparr>next_id = JInt 4,
     tasks = [\<lparr>task_id = 3, title = ''c'', completed = False,
               created_at = ''2025-08-30T09:00:00Z'', due = JNull, completed_at = JNull\<rparr>],
     rest = []\<rparr>"

definition calls1 :: "(clock \<times> call) list" where
  "calls1 = [(clk0, Add ''a'' None), (clk0, Add ''b'' None), (clk0, MarkDone [1]),
     (clk0, Edit 1 None None False True), (clk0, MarkDone [2])]"

definition data3 :: data where
  "data3 = \<lparr>next_id = JInt 3,
     tasks = [\<lparr>task_id = 1, title = ''a'', completed = False,
               created_at = ''2025-08-30T09:00:00Z'', due = JNull, completed_at = JNull\<rparr>,
              \<lparr>task_id = 2, title = ''b'', completed = True,
               created_at = ''2025-08-30T09:00:00Z'', due = JNull,
               completed_at = JStr ''2025-09-01T12:00:00Z''\<rparr>],
     rest = []\<rparr>"

section \<open>Properties\<close>

subsection \<open>Loading and saving\<close>

lemma from_dict_asdict:
  "created_at t \<noteq> [] \<Longrightarrow> from_dict rt clk k (asdict t) = Inr (t, k)"
  by (simp add: asdict_def get_or_def)

lemma from_dicts_asdict:
  "list_all (\<lambda>t. created_at t \<noteq> []) ts \<Longrightarrow> from_dicts rt clk k (map asdict ts) = Inr (ts, k)"
  by (induction ts) (simp_all add: from_dict_asdict)

lemma other_keys_idem: "other_keys (other_keys kvs) = other_keys kvs"
  by (simp add: other_keys_def)

lemma load_save:
  "wf_data d \<Longrightarrow> load_data rt clk (save_data d) = Inr (d, 0)"
  by (simp add: save_data_def wf_data_def get_or_def from_dicts_asdict other_keys_def)

lemma py_str_nonempty:
  "str_nonempty rt \<Longrightarrow> truthy v \<Longrightarrow> py_str rt v \<noteq> []"
  by (cases v) (auto simp: str_nonempty_def)

lemma from_dict_created_at:
  "str_nonempty rt \<Longrightarrow> from_dict rt clk k r = Inr (t, k') \<Longrightarrow> created_at t \<noteq> []"
  by (cases r) (auto simp: now_iso_def py_str_nonempty Let_def split: option.splits sum.splits if_splits)

lemma from_dicts_created_at:
  "str_nonempty rt \<Longrightarrow> from_dicts rt clk k rs = Inr (ts, k') \<Longrightarrow> list_all (\<lambda>t. created_at t \<noteq> []) ts"
proof (induction rs arbitrary: k ts)
  case Nil
  then show ?case by simp
next
  case (Cons r rs)
  from Cons.prems(2) obtain t k1 ts1 where
    r: "from_dict rt clk k r = Inr (t, k1)" and rs: "from_dicts rt clk k1 rs = Inr (ts1, k')"
    and ts: "ts = t # ts1"
    by (auto split: sum.splits)
  from from_dict_created_at [OF Cons.prems(1) r] Cons.IH [OF Cons.prems(1) rs] ts
  show ?case by simp
qed

lemma load_rest: "load_data rt clk f = Inr (d, k) \<Longrightarrow> other_keys (rest d) = rest d"
  by (induction rt clk f rule: load_data.induct) (auto simp: other_keys_idem other_keys_def split: sum.splits)

lemma load_wf: "str_nonempty rt \<Longrightarrow> load_data rt clk f = Inr (d, k) \<Longrightarrow> wf_data d"
  by (induction rt clk f rule: load_data.induct)
     (auto simp: wf_data_def other_keys_idem other_keys_def split: sum.splits dest: from_dicts_created_at)

lemma from_dicts_fail:
  "r \<in> set rs \<Longrightarrow> (\<forall>j. \<exists>e. from_dict rt clk j r = Inl e) \<Longrightarrow> \<exists>e. from_dicts rt clk k rs = Inl e"
proof (induction rs arbitrary: k)
  case Nil
  then show ?case by simp
next
  case (Cons x rs)
  show ?case
  proof (cases "from_dict rt clk k x")
    case (Inl e)
    then show ?thesis by simp
  next
    case (Inr p)
    obtain t k1 where p: "p = (t, k1)" by (cases p)
    from Cons.prems(2) Inr have "r \<noteq> x" by (metis Inl_Inr_False)
    with Cons.prems(1) have "r \<in> set rs" by simp
    from Cons.IH [OF this Cons.prems(2), of k1] obtain e where "from_dicts rt clk k1 rs = Inl e" ..
    with Inr p show ?thesis by simp
  qed
qed

lemma from_dict_bad_id:
  "map_of fs ''id'' = Some iv \<Longrightarrow> py_int rt iv = Inl e \<Longrightarrow> from_dict rt clk j (JObj fs) = Inl e"
  by simp

lemma from_dicts_all:
  "from_dicts rt clk k rs = Inr (ts, k') \<Longrightarrow>
   list_all2 (\<lambda>r t. \<exists>j j'. from_dict rt clk j r = Inr (t, j')) rs ts"
proof (induction rs arbitrary: k ts)
  case Nil
  then show ?case by simp
next
  case (Cons r rs)
  from Cons.prems obtain t k1 ts1 where
    r: "from_dict rt clk k r = Inr (t, k1)" and rs: "from_dicts rt clk k1 rs = Inr (ts1, k')"
    and ts: "ts = t # ts1"
    by (auto split: sum.splits)
  from r Cons.IH [OF rs] ts show ?case by auto
qed

lemma load_data_cases:
  "load_data rt clk f = Inr (d, k) \<Longrightarrow>
   f = Absent \<and> d = \<lparr>next_id = JInt 1, tasks = [], rest = []\<rparr> \<or>
   (\<exists>kvs rs. f = Parsed (JObj kvs) \<and> iter (get_or kvs ''tasks'' (JList [])) = Inr rs \<and>
      from_dicts rt clk 0 rs = Inr (tasks d, k))"
  by (induction rt clk f rule: load_data.induct) (auto split: sum.splits)

lemma from_dict_rejected:
  assumes "(\<forall>fs. r \<noteq> JObj fs) \<or>
     (\<exists>fs. r = JObj fs \<and> (map_of fs ''id'' = None
        \<or> (\<exists>iv e. map_of fs ''id'' = Some iv \<and> py_int rt iv = Inl e)
        \<or> map_of fs ''title'' = None))"
  shows "\<exists>e. from_dict rt clk j r = Inl e"
  using assms by (cases r) (auto split: option.splits sum.splits)

lemma load_data_tasks_not_list:
  assumes "map_of kvs ''tasks'' = Some tv" and "\<forall>xs. tv \<noteq> JList xs"
    and "tv \<noteq> JStr []" and "tv \<noteq> JObj []"
  shows "load_data rt clk (Parsed (JObj kvs)) = Inl TypeError"
proof (cases tv)
  case (JStr x)
  with assms(3) obtain c cs where "x = c # cs" by (cases x) auto
  with JStr assms(1) show ?thesis by (simp add: get_or_def)
next
  case (JObj x)
  with assms(4) obtain p ps where "x = p # ps" by (cases x) auto
  with JObj assms(1) show ?thesis by (simp add: get_or_def)
next
  case (JFloat x)
  with assms(1) show ?thesis by (simp add: get_or_def)
qed (use assms in \<open>simp_all add: get_or_def\<close>)

lemma load_data_next_id:
  "load_data rt clk (Parsed (JObj kvs)) = Inr (d, k) \<Longrightarrow> next_id d = get_or kvs ''next_id'' (JInt 1)"
  by (auto split: sum.splits)

text \<open>
  Claim C3, as the code has it. When the file is absent, \<open>load_data\<close> returns the empty
  collection with \<^verbatim>\<open>next_id\<close> 1 and no error. It raises \<^verbatim>\<open>SystemExit\<close> when \<^verbatim>\<open>json.load\<close>
  cannot parse the file and \<^verbatim>\<open>ValueError\<close> when the root is not an object. It raises when
  an element of the list \<^verbatim>\<open>tasks\<close> is not an object, has no \<^verbatim>\<open>id\<close>, has an \<^verbatim>\<open>id\<close> that
  \<^verbatim>\<open>int\<close> rejects, or has no \<^verbatim>\<open>title\<close>; and it raises \<^verbatim>\<open>TypeError\<close> when \<^verbatim>\<open>tasks\<close> is not
  a list, with two exceptions: an empty string and an empty object are read as an empty
  list of tasks. Whenever \<open>load_data\<close> returns from an existing file, the root is an
  object, \<^verbatim>\<open>next_id\<close> is the stored value (or 1 when the key is missing), unchecked, and
  every element that iterating over \<^verbatim>\<open>tasks\<close> yields has been reconstructed by
  \<open>from_dict\<close>, in order: no record is dropped.
\<close>

theorem load_data_outcomes:
  "load_data rt clk Absent = Inr (\<lparr>next_id = JInt 1, tasks = [], rest = []\<rparr>, 0)
   \<and> load_data rt clk Unparseable = Inl SystemExit
   \<and> ((\<forall>kvs. v \<noteq> JObj kvs) \<longrightarrow> load_data rt clk (Parsed v) = Inl ValueError)
   \<and> (map_of kvs ''tasks'' = Some (JList rs) \<and> r \<in> set rs
        \<and> ((\<forall>fs. r \<noteq> JObj fs) \<or>
            (\<exists>fs. r = JObj fs \<and> (map_of fs ''id'' = None
               \<or> (\<exists>iv e. map_of fs ''id'' = Some iv \<and> py_int rt iv = Inl e)
               \<or> map_of fs ''title'' = None)))
        \<longrightarrow> (\<exists>e'. load_data rt clk (Parsed (JObj kvs)) = Inl e'))
   \<and> (map_of kvs1 ''tasks'' = Some tv \<and> (\<forall>xs. tv \<noteq> JList xs) \<and> tv \<noteq> JStr [] \<and> tv \<noteq> JObj []
        \<longrightarrow> load_data rt clk (Parsed (JObj kvs1)) = Inl TypeError)
   \<and> (map_of kvs2 ''tasks'' = Some tv2 \<and> (tv2 = JStr [] \<or> tv2 = JObj [])
        \<longrightarrow> load_data rt clk (Parsed (JObj kvs2)) =
              Inr (\<lparr>next_id = get_or kvs2 ''next_id'' (JInt 1), tasks = [],
                    rest = other_keys kvs2\<rparr>, 0))
   \<and> (load_data rt clk f = Inr (d, k) \<longrightarrow>
        f = Absent \<and> d = \<lparr>next_id = JInt 1, tasks = [], rest = []\<rparr> \<or>
        (\<exists>kvs' rs'. f = Parsed (JObj kvs') \<and> iter (get_or kvs' ''tasks'' (JList [])) = Inr rs'
           \<and> next_id d = get_or kvs' ''next_id'' (JInt 1)
           \<and> list_all2 (\<lambda>r t. \<exists>j j'. from_dict rt clk j r = Inr (t, j')) rs' (tasks d)))"
proof (intro conjI impI)
  show "load_data rt clk Absent = Inr (\<lparr>next_id = JInt 1, tasks = [], rest = []\<rparr>, 0)" by simp
  show "load_data rt clk Unparseable = Inl SystemExit" by simp
  show "load_data rt clk (Parsed v) = Inl ValueError" if "\<forall>kvs. v \<noteq> JObj kvs"
    using that by (cases v) simp_all
next
  assume a: "map_of kvs ''tasks'' = Some (JList rs) \<and> r \<in> set rs
        \<and> ((\<forall>fs. r \<noteq> JObj fs) \<or>
            (\<exists>fs. r = JObj fs \<and> (map_of fs ''id'' = None
               \<or> (\<exists>iv e. map_of fs ''id'' = Some iv \<and> py_int rt iv = Inl e)
               \<or> map_of fs ''title'' = None)))"
  then have "\<forall>j. \<exists>e. from_dict rt clk j r = Inl e"
    using from_dict_rejected by blast
  with a obtain e' where "from_dicts rt clk 0 rs = Inl e'"
    using from_dicts_fail by blast
  with a show "\<exists>e'. load_data rt clk (Parsed (JObj kvs)) = Inl e'"
    by (simp add: get_or_def)
next
  assume "map_of kvs1 ''tasks'' = Some tv \<and> (\<forall>xs. tv \<noteq> JList xs) \<and> tv \<noteq> JStr [] \<and> tv \<noteq> JObj []"
  then show "load_data rt clk (Parsed (JObj kvs1)) = Inl TypeError"
    using load_data_tasks_not_list by blast
next
  assume "map_of kvs2 ''tasks'' = Some tv2 \<and> (tv2 = JStr [] \<or> tv2 = JObj [])"
  then show "load_data rt clk (Parsed (JObj kvs2)) =
      Inr (\<lparr>next_id = get_or kvs2 ''next_id'' (JInt 1), tasks = [], rest = other_keys kvs2\<rparr>, 0)"
    by (auto simp: get_or_def)
next
  assume l: "load_data rt clk f = Inr (d, k)"
  from load_data_cases [OF l] consider
    "f = Absent \<and> d = \<lparr>next_id = JInt 1, tasks = [], rest = []\<rparr>"
    | kvs' rs' where "f = Parsed (JObj kvs')" "iter (get_or kvs' ''tasks'' (JList [])) = Inr rs'"
        "from_dicts rt clk 0 rs' = Inr (tasks d, k)"
    by blast
  then show "f = Absent \<and> d = \<lparr>next_id = JInt 1, tasks = [], rest = []\<rparr> \<or>
        (\<exists>kvs' rs'. f = Parsed (JObj kvs') \<and> iter (get_or kvs' ''tasks'' (JList [])) = Inr rs'
           \<and> next_id d = get_or kvs' ''next_id'' (JInt 1)
           \<and> list_all2 (\<lambda>r t. \<exists>j j'. from_dict rt clk j r = Inr (t, j')) rs' (tasks d))"
  proof cases
    case 1
    then show ?thesis by blast
  next
    case 2
    from l 2(1) have "next_id d = get_or kvs' ''next_id'' (JInt 1)"
      using load_data_next_id by blast
    with 2 from_dicts_all [OF 2(3)] show ?thesis by blast
  qed
qed

theorem load_data_outcomes_witness:
  "load_data rt0 clk0 (Parsed (JList [])) = Inl ValueError
   \<and> (\<exists>e'. load_data rt0 clk0
         (Parsed (JObj [(''tasks'', JList [JObj [(''id'', JNull), (''title'', JStr ''a'')]])])) = Inl e')
   \<and> load_data rt0 clk0 (Parsed (JObj [(''tasks'', JInt 5)])) = Inl TypeError
   \<and> load_data rt0 clk0 (Parsed (JObj [(''tasks'', JObj [])])) =
       Inr (\<lparr>next_id = JInt 1, tasks = [], rest = []\<rparr>, 0)
   \<and> load_data rt0 clk0 (Parsed (JObj [(''tasks'', JList [JObj [(''id'', JInt 4), (''title'', JStr ''a'')]])]))
       = Inr (\<lparr>next_id = JInt 1,
               tasks = [\<lparr>task_id = 4, title = ''a'', completed = False,
                         created_at = ''2025-09-01T12:00:00Z'', due = JNull, completed_at = JNull\<rparr>],
               rest = []\<rparr>, 1)"
  using load_data_outcomes [of rt0 clk0 "JList []"
      "[(''tasks'', JList [JObj [(''id'', JNull), (''title'', JStr ''a'')]])]"
      "[JObj [(''id'', JNull), (''title'', JStr ''a'')]]" "JObj [(''id'', JNull), (''title'', JStr ''a'')]"
      "[(''tasks'', JInt 5)]" "JInt 5"
      "[(''tasks'', JObj [])]" "JObj []"
      "Parsed (JObj [(''tasks'', JList [JObj [(''id'', JInt 4), (''title'', JStr ''a'')]])])"
      "\<lparr>next_id = JInt 1,
               tasks = [\<lparr>task_id = 4, title = ''a'', completed = False,
                         created_at = ''2025-09-01T12:00:00Z'', due = JNull, completed_at = JNull\<rparr>],
               rest = []\<rparr>" 1]
  by (simp add: get_or_def other_keys_def now_iso_def clk0_def)

text \<open>
  The file \<^verbatim>\<open>{"next_id": null, "tasks": ""}\<close> is not of the structure the program writes
  (\<^verbatim>\<open>tasks\<close> is a string, \<^verbatim>\<open>next_id\<close> is not a number), and \<open>load_data\<close> returns an empty
  collection from it without an error.
\<close>

theorem load_data_silently_empty:
  "load_data rt0 clk0 (Parsed (JObj [(''next_id'', JNull), (''tasks'', JStr [])])) =
     Inr (\<lparr>next_id = JNull, tasks = [], rest = []\<rparr>, 0)"
  by (simp add: get_or_def other_keys_def)

subsection \<open>Editing, clearing and adding\<close>

lemma str_nonempty_rt0: "str_nonempty rt0"
  by (simp add: str_nonempty_def rt0_def)

lemma load_file0: "load_data rt clk file0 = Inr (data0, 0)"
  by (simp add: file0_def data0_def task4_def task5_def get_or_def other_keys_def)

lemma edit_loop_None: "i \<notin> task_id ` set ts \<Longrightarrow> edit_loop upd i ts = None"
  by (induction ts) auto

lemma edit_loop_found:
  "i \<notin> task_id ` set pre \<Longrightarrow> task_id t = i \<Longrightarrow>
   edit_loop upd i (pre @ t # post) = Some (upd t, pre @ upd t # post)"
  by (induction pre) auto

text \<open>
  Claim C6. When the loaded collection holds no task with the given id, \<open>edit_task\<close>
  returns \<^verbatim>\<open>None\<close> and the file is the one it found: nothing is saved.
\<close>

theorem edit_task_not_found:
  "load_data rt clk f = Inr (d, k) \<Longrightarrow> i \<notin> task_id ` set (tasks d) \<Longrightarrow>
   edit_task rt clk i new_title new_due clear_due undone f = (Inr None, f)"
  by (simp add: edit_task_def edit_loop_None)

theorem edit_task_not_found_witness:
  "edit_task rt0 clk0 7 (Some ''x'') None False True file0 = (Inr None, file0)"
  using edit_task_not_found [of rt0 clk0 file0 data0 0 7 "Some ''x''" None False True]
  by (simp add: load_file0 data0_def task4_def task5_def)

lemma from_dict_asdict_fields:
  "\<exists>t' k'. from_dict rt clk k (asdict t) = Inr (t', k') \<and> task_id t' = task_id t \<and>
     title t' = title t \<and> completed t' = completed t \<and> due t' = due t \<and>
     completed_at t' = completed_at t \<and> (created_at t \<noteq> [] \<longrightarrow> t' = t)"
  by (simp add: asdict_def get_or_def)

lemma edit_raw_fields:
  "task_id (edit_raw new_title new_due clear_due undone t) = task_id t"
  "created_at (edit_raw new_title new_due clear_due undone t) = created_at t"
  "title (edit_raw new_title new_due clear_due undone t) =
     (case new_title of None \<Rightarrow> title t | Some s \<Rightarrow> s)"
  "due (edit_raw new_title new_due clear_due undone t) =
     (if clear_due then JNull else case new_due of None \<Rightarrow> due t | Some s \<Rightarrow> JStr s)"
  "completed (edit_raw new_title new_due clear_due undone t) = (completed t \<and> \<not> undone)"
  "completed_at (edit_raw new_title new_due clear_due undone t) =
     (if undone \<and> completed t then JNull else completed_at t)"
  by (auto simp: edit_raw_def Let_def split: option.splits)

text \<open>
  Claim C5. When the first task with the given id is \<open>t\<close>, \<open>edit_task\<close> returns the
  updated task and saves the collection with that task in the place of \<open>t\<close>, whatever the
  arguments: that collection is what \<open>load_data\<close> reads from the file afterwards. A given title replaces the title; with \<^verbatim>\<open>clear_due\<close> the due date becomes
  \<^verbatim>\<open>None\<close> even when a due date is given, otherwise a given due date replaces the stored
  one; with \<^verbatim>\<open>undone\<close> a completed task becomes pending and loses \<^verbatim>\<open>completed_at\<close>, and a
  pending task keeps both fields.
\<close>

theorem edit_task_found:
  assumes "str_nonempty rt" and "load_data rt clk f = Inr (d, k)"
    and "tasks d = pre @ t # post" and "i \<notin> task_id ` set pre" and "task_id t = i"
  shows "\<exists>t'. edit_task rt clk i new_title new_due clear_due undone f =
           (Inr (Some t'), save_data (d\<lparr>tasks := pre @ t' # post\<rparr>))
         \<and> load_data rt clk' (snd (edit_task rt clk i new_title new_due clear_due undone f)) =
             Inr (d\<lparr>tasks := pre @ t' # post\<rparr>, 0)
         \<and> title t' = (case new_title of None \<Rightarrow> title t | Some s \<Rightarrow> s)
         \<and> due t' = (if clear_due then JNull
                     else case new_due of None \<Rightarrow> due t | Some s \<Rightarrow> JStr s)
         \<and> completed t' = (completed t \<and> \<not> undone)
         \<and> completed_at t' = (if undone \<and> completed t then JNull else completed_at t)
         \<and> task_id t' = task_id t \<and> created_at t' = created_at t"
proof -
  let ?r = "edit_raw new_title new_due clear_due undone t"
  from load_wf [OF assms(1,2)] have wf: "wf_data d" .
  with assms(3) have "created_at t \<noteq> []"
    by (simp add: wf_data_def)
  then have c: "created_at ?r \<noteq> []" by (simp add: edit_raw_fields)
  then have "from_dict rt clk k (asdict ?r) = Inr (?r, k)" by (rule from_dict_asdict)
  moreover have "edit_loop (edit_raw new_title new_due clear_due undone) i (tasks d)
      = Some (?r, pre @ ?r # post)"
    using assms(3-5) by (simp add: edit_loop_found)
  ultimately have res: "edit_task rt clk i new_title new_due clear_due undone f =
           (Inr (Some ?r), save_data (d\<lparr>tasks := pre @ ?r # post\<rparr>))"
    using assms(2) by (simp add: edit_task_def)
  from wf assms(3) c have "wf_data (d\<lparr>tasks := pre @ ?r # post\<rparr>)"
    by (simp add: wf_data_def)
  then have "load_data rt clk' (snd (edit_task rt clk i new_title new_due clear_due undone f)) =
             Inr (d\<lparr>tasks := pre @ ?r # post\<rparr>, 0)"
    by (simp add: res load_save)
  with res show ?thesis by (intro exI [of _ ?r] conjI) (simp_all only: edit_raw_fields)
qed

theorem edit_task_found_witness:
  "\<exists>t'. edit_task rt0 clk0 4 (Some ''Buy oat milk'') (Some ''2025-09-03'') True True file0 =
           (Inr (Some t'), save_data (data0\<lparr>tasks := [] @ t' # [task5]\<rparr>))
         \<and> load_data rt0 clk0
              (snd (edit_task rt0 clk0 4 (Some ''Buy oat milk'') (Some ''2025-09-03'') True True file0)) =
             Inr (data0\<lparr>tasks := [] @ t' # [task5]\<rparr>, 0)
         \<and> title t' = ''Buy oat milk'' \<and> due t' = JNull \<and> completed t' = False
         \<and> completed_at t' = JNull \<and> task_id t' = 4 \<and> created_at t' = ''2025-08-01T10:00:00Z''"
  using edit_task_found [OF str_nonempty_rt0 load_file0, of "[]" task4 "[task5]" 4 clk0
      "Some ''Buy oat milk''" "Some ''2025-09-03''" True True clk0]
  by (simp add: data0_def task4_def)

text \<open>
  Claim C10. Two calls of \<open>add_task\<close> in the same process create tasks with the same
  \<^verbatim>\<open>created_at\<close>, whatever the clock shows during the calls: it is the reading taken
  when the module was imported.
\<close>

theorem created_at_import_time:
  "add_task rt clk1 title1 due1 f1 = (Inr a, g1) \<Longrightarrow>
   add_task rt clk2 title2 due2 f2 = (Inr b, g2) \<Longrightarrow>
   created_at a = created_at b \<and> created_at a = now_iso (import_utc rt)"
  by (auto simp: add_task_def Let_def split: sum.splits)

theorem created_at_import_time_witness:
  "add_task rt0 clk0 ''a'' None Absent =
     (Inr \<lparr>task_id = 1, title = ''a'', completed = False, created_at = ''2025-08-30T09:00:00Z'',
           due = JNull, completed_at = JNull\<rparr>,
      save_data \<lparr>next_id = JInt 2,
         tasks = [\<lparr>task_id = 1, title = ''a'', completed = False,
                   created_at = ''2025-08-30T09:00:00Z'', due = JNull, completed_at = JNull\<rparr>],
         rest = []\<rparr>)
   \<and> add_task rt0 (\<lambda>k. ''2026-01-01T00:00:00'') ''b'' (Some ''2026-02-02'') file0 =
     (Inr \<lparr>task_id = 6, title = ''b'', completed = False, created_at = ''2025-08-30T09:00:00Z'',
           due = JStr ''2026-02-02'', completed_at = JNull\<rparr>,
      save_data \<lparr>next_id = JInt 7,
         tasks = [task4, task5, \<lparr>task_id = 6, title = ''b'', completed = False,
                   created_at = ''2025-08-30T09:00:00Z'', due = JStr ''2026-02-02'',
                   completed_at = JNull\<rparr>],
         rest = []\<rparr>)
   \<and> now_iso (import_utc rt0) = ''2025-08-30T09:00:00Z''"
  using created_at_import_time [of rt0 clk0 "''a''" None Absent
     "\<lparr>task_id = 1, title = ''a'', completed = False, created_at = ''2025-08-30T09:00:00Z'',
           due = JNull, completed_at = JNull\<rparr>"
     "save_data \<lparr>next_id = JInt 2,
         tasks = [\<lparr>task_id = 1, title = ''a'', completed = False,
                   created_at = ''2025-08-30T09:00:00Z'', due = JNull, completed_at = JNull\<rparr>],
         rest = []\<rparr>"
     "\<lambda>k. ''2026-01-01T00:00:00''" "''b''" "Some ''2026-02-02''" file0
     "\<lparr>task_id = 6, title = ''b'', completed = False, created_at = ''2025-08-30T09:00:00Z'',
           due = JStr ''2026-02-02'', completed_at = JNull\<rparr>"
     "save_data \<lparr>next_id = JInt 7,
         tasks = [task4, task5, \<lparr>task_id = 6, title = ''b'', completed = False,
                   created_at = ''2025-08-30T09:00:00Z'', due = JStr ''2026-02-02'',
                   completed_at = JNull\<rparr>],
         rest = []\<rparr>"]
  by (simp add: add_task_def Let_def load_file0 data0_def rt0_def now_iso_def opt_str_def)

lemma removed_count:
  "int (length ts) - int (length (filter (\<lambda>t. \<not> P t) ts)) = int (length (filter P ts))"
  using sum_length_filter_compl [of P ts] by simp

lemma add_task_loaded:
  "load_data rt clk f = Inr (d, k) \<Longrightarrow> next_id d = JInt n \<Longrightarrow>
   add_task rt clk new_title new_due f =
     (Inr \<lparr>task_id = n, title = new_title, completed = False,
           created_at = now_iso (import_utc rt), due = opt_str new_due, completed_at = JNull\<rparr>,
      save_data (d\<lparr>tasks := tasks d @ [\<lparr>task_id = n, title = new_title, completed = False,
           created_at = now_iso (import_utc rt), due = opt_str new_due, completed_at = JNull\<rparr>],
        next_id := JInt (n + 1)\<rparr>))"
  by (simp add: add_task_def Let_def)

text \<open>
  Claim C2. \<open>clear_tasks\<close> with mode \<^verbatim>\<open>done\<close> keeps exactly the tasks that are not
  completed, leaves \<^verbatim>\<open>next_id\<close> as it is and returns the number of completed tasks; with mode
  \<^verbatim>\<open>all\<close> it removes every task, sets \<^verbatim>\<open>next_id\<close> to 1 and returns the number of tasks;
  \<open>add_task\<close> on the file it leaves then creates the task with id 1.
\<close>

theorem clear_tasks_modes:
  assumes "str_nonempty rt" and "load_data rt clk f = Inr (d, k)"
  shows "clear_tasks rt clk ''done'' f =
           (Inr (int (length (filter completed (tasks d)))),
            save_data (d\<lparr>tasks := filter (\<lambda>t. \<not> completed t) (tasks d)\<rparr>))
       \<and> load_data rt clk' (snd (clear_tasks rt clk ''done'' f)) =
           Inr (d\<lparr>tasks := filter (\<lambda>t. \<not> completed t) (tasks d)\<rparr>, 0)
       \<and> clear_tasks rt clk ''all'' f =
           (Inr (int (length (tasks d))), save_data (d\<lparr>tasks := [], next_id := JInt 1\<rparr>))
       \<and> load_data rt clk' (snd (clear_tasks rt clk ''all'' f)) =
           Inr (d\<lparr>tasks := [], next_id := JInt 1\<rparr>, 0)
       \<and> (\<exists>t g. add_task rt clk' new_title new_due (snd (clear_tasks rt clk ''all'' f)) = (Inr t, g)
            \<and> task_id t = 1)"
proof -
  from load_wf [OF assms] have wf: "wf_data d" .
  have done_eq: "clear_tasks rt clk ''done'' f =
           (Inr (int (length (filter completed (tasks d)))),
            save_data (d\<lparr>tasks := filter (\<lambda>t. \<not> completed t) (tasks d)\<rparr>))"
    using assms(2) by (simp add: clear_tasks_def Let_def removed_count)
  have all_eq: "clear_tasks rt clk ''all'' f =
           (Inr (int (length (tasks d))), save_data (d\<lparr>tasks := [], next_id := JInt 1\<rparr>))"
    using assms(2) by (simp add: clear_tasks_def Let_def)
  from wf have "wf_data (d\<lparr>tasks := filter (\<lambda>t. \<not> completed t) (tasks d)\<rparr>)"
    by (simp add: wf_data_def list_all_iff)
  then have done_load: "load_data rt clk' (snd (clear_tasks rt clk ''done'' f)) =
           Inr (d\<lparr>tasks := filter (\<lambda>t. \<not> completed t) (tasks d)\<rparr>, 0)"
    by (simp add: done_eq load_save)
  from wf have "wf_data (d\<lparr>tasks := [], next_id := JInt 1\<rparr>)"
    by (simp add: wf_data_def)
  then have all_load: "load_data rt clk' (snd (clear_tasks rt clk ''all'' f)) =
           Inr (d\<lparr>tasks := [], next_id := JInt 1\<rparr>, 0)"
    by (simp add: all_eq load_save)
  have "\<exists>t g. add_task rt clk' new_title new_due (snd (clear_tasks rt clk ''all'' f)) = (Inr t, g)
            \<and> task_id t = 1"
    using add_task_loaded [OF all_load, of 1 new_title new_due] by simp
  with done_eq all_eq done_load all_load show ?thesis by blast
qed

theorem clear_tasks_modes_witness:
  "clear_tasks rt0 clk0 ''done'' file0 = (Inr 1, save_data (data0\<lparr>tasks := [task5]\<rparr>))
   \<and> clear_tasks rt0 clk0 ''all'' file0 = (Inr 2, save_data (data0\<lparr>tasks := [], next_id := JInt 1\<rparr>))
   \<and> (\<exists>t g. add_task rt0 clk0 ''x'' None (snd (clear_tasks rt0 clk0 ''all'' file0)) = (Inr t, g)
         \<and> task_id t = 1)"
  using clear_tasks_modes [OF str_nonempty_rt0 load_file0, of clk0 clk0 "''x''" None]
  by (auto simp: data0_def task4_def task5_def)

subsection \<open>Marking done and counting\<close>

lemma mark_loop_wf:
  "list_all (\<lambda>t. created_at t \<noteq> []) ts \<Longrightarrow>
   \<exists>ts'. mark_loop rt clk k ids ts =
       Inr (ts', map snd (filter (\<lambda>p. task_id (fst p) \<in> set ids \<and> \<not> completed (fst p)) (zip ts ts')),
            k + length (filter (\<lambda>t. task_id t \<in> set ids \<and> \<not> completed t) ts))
     \<and> length ts' = length ts
     \<and> (\<forall>i<length ts. ts' ! i =
          (if task_id (ts ! i) \<in> set ids \<and> \<not> completed (ts ! i)
           then (ts ! i)\<lparr>completed := True, completed_at := JStr (now_iso (clk (k +
                  length (filter (\<lambda>t. task_id t \<in> set ids \<and> \<not> completed t) (take i ts)))))\<rparr>
           else ts ! i))"
proof (induction ts arbitrary: k)
  case Nil
  then show ?case by simp
next
  case (Cons t ts)
  let ?ch = "\<lambda>t. task_id t \<in> set ids \<and> \<not> completed t"
  from Cons.prems have wf: "list_all (\<lambda>t. created_at t \<noteq> []) ts" and c: "created_at t \<noteq> []"
    by simp_all
  show ?case
  proof (cases "?ch t")
    case True
    let ?t' = "t\<lparr>completed := True, completed_at := JStr (now_iso (clk k))\<rparr>"
    from Cons.IH [OF wf, of "Suc k"] obtain ts' where
      ml: "mark_loop rt clk (Suc k) ids ts =
       Inr (ts', map snd (filter (\<lambda>p. ?ch (fst p)) (zip ts ts')), Suc k + length (filter ?ch ts))"
      and len: "length ts' = length ts"
      and nth: "\<forall>i<length ts. ts' ! i =
          (if ?ch (ts ! i)
           then (ts ! i)\<lparr>completed := True, completed_at := JStr (now_iso (clk (Suc k +
                  length (filter ?ch (take i ts)))))\<rparr>
           else ts ! i)"
      by blast
    from c have fd: "from_dict rt clk (Suc k) (asdict ?t') = Inr (?t', Suc k)"
      by (simp add: from_dict_asdict)
    have 1: "mark_loop rt clk k ids (t # ts) =
       Inr (?t' # ts', map snd (filter (\<lambda>p. ?ch (fst p)) (zip (t # ts) (?t' # ts'))),
            k + length (filter ?ch (t # ts)))"
      using True ml fd by (simp add: Let_def)
    have 2: "\<forall>i<length (t # ts). (?t' # ts') ! i =
          (if ?ch ((t # ts) ! i)
           then ((t # ts) ! i)\<lparr>completed := True, completed_at := JStr (now_iso (clk (k +
                  length (filter ?ch (take i (t # ts))))))\<rparr>
           else (t # ts) ! i)"
    proof (intro allI impI)
      fix i assume "i < length (t # ts)"
      then show "(?t' # ts') ! i =
          (if ?ch ((t # ts) ! i)
           then ((t # ts) ! i)\<lparr>completed := True, completed_at := JStr (now_iso (clk (k +
                  length (filter ?ch (take i (t # ts))))))\<rparr>
           else (t # ts) ! i)"
        using True nth by (cases i) simp_all
    qed
    from 1 2 len show ?thesis by (intro exI [of _ "?t' # ts'"]) simp
  next
    case False
    from Cons.IH [OF wf, of k] obtain ts' where
      ml: "mark_loop rt clk k ids ts =
       Inr (ts', map snd (filter (\<lambda>p. ?ch (fst p)) (zip ts ts')), k + length (filter ?ch ts))"
      and len: "length ts' = length ts"
      and nth: "\<forall>i<length ts. ts' ! i =
          (if ?ch (ts ! i)
           then (ts ! i)\<lparr>completed := True, completed_at := JStr (now_iso (clk (k +
                  length (filter ?ch (take i ts)))))\<rparr>
           else ts ! i)"
      by blast
    have 1: "mark_loop rt clk k ids (t # ts) =
       Inr (t # ts', map snd (filter (\<lambda>p. ?ch (fst p)) (zip (t # ts) (t # ts'))),
            k + length (filter ?ch (t # ts)))"
      using False ml by auto
    have 2: "\<forall>i<length (t # ts). (t # ts') ! i =
          (if ?ch ((t # ts) ! i)
           then ((t # ts) ! i)\<lparr>completed := True, completed_at := JStr (now_iso (clk (k +
                  length (filter ?ch (take i (t # ts))))))\<rparr>
           else (t # ts) ! i)"
    proof (intro allI impI)
      fix i assume "i < length (t # ts)"
      then show "(t # ts') ! i =
          (if ?ch ((t # ts) ! i)
           then ((t # ts) ! i)\<lparr>completed := True, completed_at := JStr (now_iso (clk (k +
                  length (filter ?ch (take i (t # ts))))))\<rparr>
           else (t # ts) ! i)"
        using False nth by (cases i) auto
    qed
    from 1 2 len show ?thesis by (intro exI [of _ "t # ts'"]) simp
  qed
qed

text \<open>
  Claim C4. \<open>mark_done\<close> never raises on a collection that loads. The list it saves has
  the length of the loaded one; a task whose id is among \<open>ids\<close> and that is not completed
  gets \<^verbatim>\<open>completed = True\<close> and \<^verbatim>\<open>completed_at\<close> set to the reading of the clock at that
  moment (the readings are taken one per changed task, after the \<open>k\<close> readings of the load),
  and every other task, completed already or with another id, stays as it is. The list
  returned holds exactly the changed tasks, in order. The collection is saved in every case,
  also when nothing changed: the list described is what \<open>load_data\<close> reads from the file
  afterwards.
\<close>

theorem mark_done_changes:
  assumes "str_nonempty rt" and "load_data rt clk f = Inr (d, k)"
  shows "\<exists>ts'. mark_done rt clk ids f =
       (Inr (map snd (filter (\<lambda>p. task_id (fst p) \<in> set ids \<and> \<not> completed (fst p))
                        (zip (tasks d) ts'))),
        save_data (d\<lparr>tasks := ts'\<rparr>))
     \<and> load_data rt clk' (snd (mark_done rt clk ids f)) = Inr (d\<lparr>tasks := ts'\<rparr>, 0)
     \<and> length ts' = length (tasks d)
     \<and> (\<forall>i<length (tasks d). ts' ! i =
          (if task_id (tasks d ! i) \<in> set ids \<and> \<not> completed (tasks d ! i)
           then (tasks d ! i)\<lparr>completed := True, completed_at := JStr (now_iso (clk (k +
                  length (filter (\<lambda>t. task_id t \<in> set ids \<and> \<not> completed t) (take i (tasks d))))))\<rparr>
           else tasks d ! i))"
proof -
  from load_wf [OF assms] have wf: "wf_data d" .
  then have cr: "list_all (\<lambda>t. created_at t \<noteq> []) (tasks d)"
    by (simp add: wf_data_def)
  from mark_loop_wf [OF cr, of rt clk k ids] obtain ts' where
    ml: "mark_loop rt clk k ids (tasks d) =
       Inr (ts', map snd (filter (\<lambda>p. task_id (fst p) \<in> set ids \<and> \<not> completed (fst p)) (zip (tasks d) ts')),
            k + length (filter (\<lambda>t. task_id t \<in> set ids \<and> \<not> completed t) (tasks d)))"
    and len: "length ts' = length (tasks d)"
    and nth: "\<forall>i<length (tasks d). ts' ! i =
          (if task_id (tasks d ! i) \<in> set ids \<and> \<not> completed (tasks d ! i)
           then (tasks d ! i)\<lparr>completed := True, completed_at := JStr (now_iso (clk (k +
                  length (filter (\<lambda>t. task_id t \<in> set ids \<and> \<not> completed t) (take i (tasks d))))))\<rparr>
           else tasks d ! i)"
    by blast
  from ml assms(2) have res: "mark_done rt clk ids f =
       (Inr (map snd (filter (\<lambda>p. task_id (fst p) \<in> set ids \<and> \<not> completed (fst p))
                        (zip (tasks d) ts'))),
        save_data (d\<lparr>tasks := ts'\<rparr>))"
    by (simp add: mark_done_def)
  have "created_at (ts' ! i) \<noteq> []" if "i < length ts'" for i
  proof -
    from that len have i: "i < length (tasks d)" by simp
    with cr have "created_at (tasks d ! i) \<noteq> []" by (simp add: list_all_length)
    with nth i show ?thesis by simp
  qed
  then have "list_all (\<lambda>t. created_at t \<noteq> []) ts'" by (simp add: list_all_length)
  with wf have "wf_data (d\<lparr>tasks := ts'\<rparr>)" by (simp add: wf_data_def)
  then have "load_data rt clk' (snd (mark_done rt clk ids f)) = Inr (d\<lparr>tasks := ts'\<rparr>, 0)"
    by (simp add: res load_save)
  with res len nth show ?thesis by blast
qed

theorem mark_done_changes_witness:
  "mark_done rt0 clk0 [5, 4, 9] file0 =
     (Inr [task5\<lparr>completed := True, completed_at := JStr ''2025-09-01T12:00:00Z''\<rparr>],
      save_data (data0\<lparr>tasks :=
        [task4, task5\<lparr>completed := True, completed_at := JStr ''2025-09-01T12:00:00Z''\<rparr>]\<rparr>))
   \<and> load_data rt0 clk0 (snd (mark_done rt0 clk0 [5, 4, 9] file0)) =
       Inr (data0\<lparr>tasks :=
        [task4, task5\<lparr>completed := True, completed_at := JStr ''2025-09-01T12:00:00Z''\<rparr>]\<rparr>, 0)"
proof -
  have ev: "mark_done rt0 clk0 [5, 4, 9] file0 =
     (Inr [task5\<lparr>completed := True, completed_at := JStr ''2025-09-01T12:00:00Z''\<rparr>],
      save_data (data0\<lparr>tasks :=
        [task4, task5\<lparr>completed := True, completed_at := JStr ''2025-09-01T12:00:00Z''\<rparr>]\<rparr>))"
    by (simp add: mark_done_def load_file0 data0_def task4_def task5_def asdict_def get_or_def
        clk0_def now_iso_def Let_def)
  have "wf_data (data0\<lparr>tasks :=
        [task4, task5\<lparr>completed := True, completed_at := JStr ''2025-09-01T12:00:00Z''\<rparr>]\<rparr>)"
    by (simp add: wf_data_def data0_def task4_def task5_def other_keys_def)
  then have "load_data rt0 clk0 (snd (mark_done rt0 clk0 [5, 4, 9] file0)) =
       Inr (data0\<lparr>tasks :=
        [task4, task5\<lparr>completed := True, completed_at := JStr ''2025-09-01T12:00:00Z''\<rparr>]\<rparr>, 0)"
    by (simp add: ev load_save)
  with mark_done_changes [OF str_nonempty_rt0 load_file0, of clk0 "[5, 4, 9]" clk0] ev
  show ?thesis by simp
qed

lemma overdue_loop_count:
  "list_all due_ok ts \<Longrightarrow>
   overdue_loop today n ts =
     Inr (n + int (length (filter (\<lambda>t. \<not> completed t \<and> (\<exists>s. due t = JStr s \<and> s < today)) ts)))"
proof (induction ts arbitrary: n)
  case Nil
  then show ?case by simp
next
  case (Cons t ts)
  from Cons.prems have ok: "due_ok t" and oks: "list_all due_ok ts" by simp_all
  from ok consider "due t = JNull" | s where "due t = JStr s" "s \<noteq> []"
    by (auto simp: due_ok_def split: json.splits)
  then show ?case
  proof cases
    case 1
    then show ?thesis using Cons.IH [OF oks] by simp
  next
    case 2
    then show ?thesis using Cons.IH [OF oks] by simp
  qed
qed

text \<open>
  Claim C9. On a collection whose due dates are absent or dates, \<open>stats\<close> returns the
  number of tasks as total, the number of completed tasks as done (the field \<open>finished\<close>),
  their difference as pending, and as overdue the number of tasks that are not completed
  and have a due date strictly below \<open>today\<close> in the order of strings. When every pending
  task has no due date or is due today, overdue is 0.
\<close>

theorem stats_counts:
  assumes "load_data rt clk f = Inr (d, k)" and "list_all due_ok (tasks d)"
  shows "\<exists>c. stats rt clk today f = Inr c
     \<and> total c = int (length (tasks d))
     \<and> finished c = int (length (filter completed (tasks d)))
     \<and> pending c = total c - finished c
     \<and> overdue c = int (length (filter
          (\<lambda>t. \<not> completed t \<and> (\<exists>s. due t = JStr s \<and> s < today)) (tasks d)))
     \<and> (list_all (\<lambda>t. completed t \<or> due t = JNull \<or> due t = JStr today) (tasks d)
          \<longrightarrow> overdue c = 0)"
proof -
  let ?od = "\<lambda>t. \<not> completed t \<and> (\<exists>s. due t = JStr s \<and> s < today)"
  let ?c = "\<lparr>total = int (length (tasks d)),
             pending = int (length (tasks d)) - int (length (filter completed (tasks d))),
             finished = int (length (filter completed (tasks d))),
             overdue = int (length (filter ?od (tasks d)))\<rparr>"
  have "stats rt clk today f = Inr ?c"
    using assms(1) overdue_loop_count [OF assms(2), of today 0]
    by (simp add: stats_def Let_def)
  moreover have "filter ?od (tasks d) = []"
    if "list_all (\<lambda>t. completed t \<or> due t = JNull \<or> due t = JStr today) (tasks d)"
    using that by (auto simp: filter_empty_conv list_all_iff)
  ultimately show ?thesis by (intro exI [of _ ?c]) simp
qed

lemma load_file1: "load_data rt clk file1 = Inr (data1, 0)"
  by (simp add: file1_def data1_def get_or_def other_keys_def)

theorem stats_counts_witness:
  "stats rt0 clk0 ''2025-09-01'' file1 = Inr \<lparr>total = 4, pending = 3, finished = 1, overdue = 1\<rparr>
   \<and> stats rt0 clk0 ''2025-08-31'' file1 = Inr \<lparr>total = 4, pending = 3, finished = 1, overdue = 0\<rparr>"
  using stats_counts [OF load_file1, of rt0 clk0 "''2025-09-01''"]
    stats_counts [OF load_file1, of rt0 clk0 "''2025-08-31''"]
  by (simp add: stats_def load_file1 data1_def due_ok_def)

subsection \<open>The order of the listing\<close>

lemma load_file2: "load_data rt clk file2 = Inr (data2, 0)"
  by (simp add: file2_def data2_def undated_def february_def january_later_def january_def
      get_or_def other_keys_def)

lemma insort_key_cong_set:
  "f x = g x \<Longrightarrow> (\<forall>y\<in>set ys. f y = g y) \<Longrightarrow> insort_key f x ys = insort_key g x ys"
  by (induction ys) simp_all

lemma sort_key_cong_set:
  "(\<forall>x\<in>set xs. f x = g x) \<Longrightarrow> sort_key f xs = sort_key g xs"
proof (induction xs)
  case Nil
  then show ?case by simp
next
  case (Cons x xs)
  then have "sort_key f xs = sort_key g xs" by simp
  moreover from Cons.prems have "insort_key f x (sort_key g xs) = insort_key g x (sort_key g xs)"
    by (intro insort_key_cong_set) simp_all
  ultimately show ?case by simp
qed

lemma insort_key_equiv:
  "(\<forall>y\<in>set ys. f x \<le> f y \<longleftrightarrow> g x \<le> g y) \<Longrightarrow> insort_key f x ys = insort_key g x ys"
  by (induction ys) simp_all

lemma sort_key_equiv:
  "(\<forall>x\<in>set xs. \<forall>y\<in>set xs. f x \<le> f y \<longleftrightarrow> g x \<le> g y) \<Longrightarrow> sort_key f xs = sort_key g xs"
proof (induction xs)
  case Nil
  then show ?case by simp
next
  case (Cons x xs)
  then have "sort_key f xs = sort_key g xs" by simp
  moreover from Cons.prems
  have "insort_key f x (sort_key g xs) = insort_key g x (sort_key g xs)"
    by (intro insort_key_equiv) simp
  ultimately show ?case by simp
qed

lemma pending_key_due_ok:
  "due_ok t \<Longrightarrow> due_ok u \<Longrightarrow>
   pending_key t \<le> pending_key u \<longleftrightarrow> due_sort_key t \<le> due_sort_key u"
  by (auto simp: due_ok_def pending_key_def due_sort_key_def or_else_def atom_def
      split: json.splits)

lemma as_str_due_ok: "due_ok t \<Longrightarrow> as_str (or_else (due t) ''9999-12-31'') \<noteq> None"
  by (cases "due t") (simp_all add: due_ok_def or_else_def)

lemma pending_ordered_due_ok: "list_all due_ok ts \<Longrightarrow> pending_ordered ts"
  unfolding pending_ordered_def same_class_def list_all_iff
  using as_str_due_ok by (intro disjI1) auto

lemma py_sort_pending:
  assumes "list_all due_ok ts"
  shows "py_sort rt pending_raw_key (pending_ordered ts) pending_key False ts =
    Inr (sort_key due_sort_key ts)"
proof -
  from assms have eq: "sort_key pending_key ts = sort_key due_sort_key ts"
    by (intro sort_key_equiv) (simp add: list_all_iff pending_key_due_ok)
  show ?thesis
  proof (cases "length ts \<le> 1")
    case True
    then have "ts = [] \<or> (\<exists>t. ts = [t])"
      by (cases ts) auto
    then have "sort_key due_sort_key ts = ts" by auto
    with True show ?thesis by (simp add: py_sort_def)
  next
    case False
    with pending_ordered_due_ok [OF assms] eq show ?thesis by (simp add: py_sort_def)
  qed
qed

lemma list_tasks_sorted:
  assumes "str_nonempty rt" and "load_data rt clk f = Inr (d, k)"
    and "list_all due_ok (tasks d)" and "kind = ''pending'' \<or> kind = ''all''"
  shows "list_tasks rt clk kind f =
    Inr (sort_key due_sort_key (filter (\<lambda>t. kind = ''all'' \<or> \<not> completed t) (tasks d)))"
proof -
  from load_wf [OF assms(1,2)] have "list_all (\<lambda>t. created_at t \<noteq> []) (tasks d)"
    by (simp add: wf_data_def)
  then have fd: "from_dicts rt clk k (map asdict (tasks d)) = Inr (tasks d, k)"
    by (rule from_dicts_asdict)
  from assms(3) have ok: "list_all due_ok (filter (\<lambda>t. kind = ''all'' \<or> \<not> completed t) (tasks d))"
    by (simp add: list_all_iff)
  from assms(4) show ?thesis
  proof
    assume p: "kind = ''pending''"
    with ok have "list_all due_ok (filter (\<lambda>t. \<not> completed t) (tasks d))" by simp
    from py_sort_pending [OF this] assms(2) fd p show ?thesis
      by (simp add: list_tasks_def)
  next
    assume a: "kind = ''all''"
    from py_sort_pending [OF assms(3)] assms(2) fd a show ?thesis
      by (simp add: list_tasks_def)
  qed
qed

text \<open>
  Claim C8. For the kinds \<^verbatim>\<open>pending\<close> and \<^verbatim>\<open>all\<close>, on a collection whose due dates are
  absent or dates, \<open>list_tasks\<close> returns the selected tasks (each once, none added)
  sorted ascending by the pair (has no due date, due date or sentinel) and then by
  \<^verbatim>\<open>created_at\<close>. So for two positions \<open>i < j\<close> of the result: a task without a due date is
  never before one with a due date, of two dated tasks the first has the earlier or the
  same due date, and with equal due dates the first has the earlier or the same
  \<^verbatim>\<open>created_at\<close>. Tasks with the same key keep the order they have in the collection.
\<close>

theorem list_tasks_order:
  assumes "str_nonempty rt" and "load_data rt clk f = Inr (d, k)"
    and "list_all due_ok (tasks d)" and "kind = ''pending'' \<or> kind = ''all''"
  shows "\<exists>ts. list_tasks rt clk kind f = Inr ts
     \<and> mset ts = mset (filter (\<lambda>t. kind = ''all'' \<or> \<not> completed t) (tasks d))
     \<and> sorted (map due_sort_key ts)
     \<and> (\<forall>i j. i < j \<and> j < length ts \<longrightarrow>
          (due (ts ! i) = JNull \<longrightarrow> due (ts ! j) = JNull)
        \<and> (\<forall>x y. due (ts ! i) = JStr x \<and> due (ts ! j) = JStr y \<longrightarrow> x \<le> y)
        \<and> (due (ts ! i) = due (ts ! j) \<longrightarrow> created_at (ts ! i) \<le> created_at (ts ! j)))
     \<and> (\<forall>key. filter (\<lambda>t. due_sort_key t = key) ts =
          filter (\<lambda>t. due_sort_key t = key)
            (filter (\<lambda>t. kind = ''all'' \<or> \<not> completed t) (tasks d)))"
proof -
  let ?ts = "sort_key due_sort_key (filter (\<lambda>t. kind = ''all'' \<or> \<not> completed t) (tasks d))"
  have res: "list_tasks rt clk kind f = Inr ?ts"
    using assms by (rule list_tasks_sorted)
  have srt: "sorted (map due_sort_key ?ts)" by (rule sorted_sort_key)
  have ok: "\<forall>t\<in>set ?ts. due_ok t"
    using assms(3) by (simp add: list_all_iff)
  have pair: "(due (?ts ! i) = JNull \<longrightarrow> due (?ts ! j) = JNull)
        \<and> (\<forall>x y. due (?ts ! i) = JStr x \<and> due (?ts ! j) = JStr y \<longrightarrow> x \<le> y)
        \<and> (due (?ts ! i) = due (?ts ! j) \<longrightarrow> created_at (?ts ! i) \<le> created_at (?ts ! j))"
    if "i < j" "j < length ?ts" for i j
  proof -
    from that have i: "i < length ?ts" by simp
    from srt that have le: "due_sort_key (?ts ! i) \<le> due_sort_key (?ts ! j)"
      using sorted_nth_mono [of "map due_sort_key ?ts" i j] by simp
    from ok i have oki: "due_ok (?ts ! i)" using nth_mem by blast
    from ok that(2) have okj: "due_ok (?ts ! j)" using nth_mem by blast
    from le oki okj show ?thesis
      by (auto simp: due_sort_key_def due_ok_def split: json.splits)
  qed
  have ms: "mset ?ts = mset (filter (\<lambda>t. kind = ''all'' \<or> \<not> completed t) (tasks d))"
    by simp
  from pair have all: "\<forall>i j. i < j \<and> j < length ?ts \<longrightarrow>
          (due (?ts ! i) = JNull \<longrightarrow> due (?ts ! j) = JNull)
        \<and> (\<forall>x y. due (?ts ! i) = JStr x \<and> due (?ts ! j) = JStr y \<longrightarrow> x \<le> y)
        \<and> (due (?ts ! i) = due (?ts ! j) \<longrightarrow> created_at (?ts ! i) \<le> created_at (?ts ! j))"
    by blast
  show ?thesis
  proof (intro exI conjI)
    show "list_tasks rt clk kind f = Inr ?ts" by (rule res)
    show "mset ?ts = mset (filter (\<lambda>t. kind = ''all'' \<or> \<not> completed t) (tasks d))" by (rule ms)
    show "sorted (map due_sort_key ?ts)" by (rule srt)
    show "\<forall>i j. i < j \<and> j < length ?ts \<longrightarrow>
          (due (?ts ! i) = JNull \<longrightarrow> due (?ts ! j) = JNull)
        \<and> (\<forall>x y. due (?ts ! i) = JStr x \<and> due (?ts ! j) = JStr y \<longrightarrow> x \<le> y)
        \<and> (due (?ts ! i) = due (?ts ! j) \<longrightarrow> created_at (?ts ! i) \<le> created_at (?ts ! j))"
      by (rule all)
    show "\<forall>key. filter (\<lambda>t. due_sort_key t = key) ?ts =
          filter (\<lambda>t. due_sort_key t = key)
            (filter (\<lambda>t. kind = ''all'' \<or> \<not> completed t) (tasks d))"
      by (intro allI sort_key_stable)
  qed
qed

theorem list_tasks_order_witness:
  "list_tasks rt0 clk0 ''pending'' file2 = Inr [january, january_later, february, undated]"
proof -
  have ev: "list_tasks rt0 clk0 ''pending'' file2 = Inr [january, january_later, february, undated]"
    by code_simp
  have ok: "list_all due_ok (tasks data2)"
    by (simp add: data2_def undated_def february_def january_later_def january_def due_ok_def)
  from list_tasks_order [OF str_nonempty_rt0 load_file2 ok, of "''pending''" clk0] ev
  show ?thesis by simp
qed

subsection \<open>Sequences of operations from the empty collection\<close>

lemma holds_save: "wf_data d \<Longrightarrow> loads_as rt (save_data d) d"
  by (simp add: loads_as_def load_save)

lemma holds_Absent: "loads_as rt Absent \<lparr>next_id = JInt 1, tasks = [], rest = []\<rparr>"
  by (simp add: loads_as_def)

lemma holds_load: "loads_as rt f d \<Longrightarrow> load_data rt clk f = Inr (d, 0)"
  by (simp add: loads_as_def)

lemma inv_start: "run_inv rt ([], Absent)"
  unfolding run_inv_def
  by (auto simp: consistent_def wf_data_def other_keys_def intro!: exI [of _ "\<lparr>next_id = JInt 1, tasks = [], rest = []\<rparr>"] holds_Absent)

lemma good_wf: "consistent n d \<Longrightarrow> wf_data d"
  by (simp add: consistent_def)

lemma good_add:
  assumes "consistent n d"
  shows "consistent (n + 1) (d\<lparr>tasks := tasks d @ [\<lparr>task_id = n + 1, title = a, completed = False,
           created_at = now_iso u, due = b, completed_at = JNull\<rparr>],
        next_id := JInt (n + 1 + 1)\<rparr>)"
  using assms
  by (auto simp: consistent_def wf_data_def now_iso_def sorted_wrt_append list_all_iff timestamped_def)

lemma good_filter: "consistent n d \<Longrightarrow> consistent n (d\<lparr>tasks := filter P (tasks d)\<rparr>)"
  by (auto simp: consistent_def wf_data_def list_all_iff sorted_wrt_map sorted_wrt_filter)

lemma good_clear: "consistent n d \<Longrightarrow> consistent 0 (d\<lparr>tasks := [], next_id := JInt 1\<rparr>)"
  by (simp add: consistent_def wf_data_def)

lemma good_pointwise:
  assumes "consistent n d" and "length ts' = length (tasks d)"
    and "\<forall>i<length (tasks d). task_id (ts' ! i) = task_id (tasks d ! i)
          \<and> created_at (ts' ! i) = created_at (tasks d ! i) \<and> timestamped (ts' ! i)"
  shows "consistent n (d\<lparr>tasks := ts'\<rparr>)"
proof -
  from assms(2,3) have ids: "map task_id ts' = map task_id (tasks d)"
    by (intro nth_equalityI) simp_all
  from assms(1) have "list_all (\<lambda>t. created_at t \<noteq> []) (tasks d)"
    and "list_all (\<lambda>t. 1 \<le> task_id t \<and> task_id t \<le> n) (tasks d)"
    by (simp_all add: consistent_def wf_data_def)
  with assms(2,3) have "list_all (\<lambda>t. created_at t \<noteq> []) ts'"
    and "list_all (\<lambda>t. 1 \<le> task_id t \<and> task_id t \<le> n) ts'"
    and "list_all timestamped ts'"
    by (simp_all add: list_all_length)
  with assms(1) ids show ?thesis
    by (simp add: consistent_def wf_data_def)
qed

lemma step_add:
  assumes "loads_as rt f d" and "consistent n d"
  shows "\<exists>t d'. add_task rt clk new_title new_due f = (Inr t, save_data d') \<and> task_id t = n + 1
     \<and> \<not> completed t \<and> completed_at t = JNull \<and> consistent (n + 1) d'"
proof -
  from assms(2) have nid: "next_id d = JInt (n + 1)" by (simp add: consistent_def)
  from add_task_loaded [OF holds_load [OF assms(1)] nid, of clk new_title new_due]
    good_add [OF assms(2), of new_title "import_utc rt" "opt_str new_due"]
  show ?thesis by auto
qed

lemma step_delete:
  assumes "loads_as rt f d" and "consistent n d"
  shows "\<exists>d'. snd (delete_tasks rt clk ids f) = save_data d' \<and> consistent n d'"
  using holds_load [OF assms(1), of clk] good_filter [OF assms(2)]
  by (auto simp: delete_tasks_def Let_def)

lemma step_clear:
  assumes "loads_as rt f d" and "consistent n d"
  shows "(mode = ''all'' \<longrightarrow> (\<exists>m d'. clear_tasks rt clk mode f = (Inr m, save_data d') \<and> consistent 0 d'))
     \<and> (mode = ''done'' \<longrightarrow> (\<exists>m d'. clear_tasks rt clk mode f = (Inr m, save_data d') \<and> consistent n d'))
     \<and> (mode \<noteq> ''all'' \<and> mode \<noteq> ''done'' \<longrightarrow> clear_tasks rt clk mode f = (Inl ValueError, f))"
  using holds_load [OF assms(1), of clk] good_filter [OF assms(2)] good_clear [OF assms(2)]
  by (auto simp: clear_tasks_def Let_def)

lemma step_mark:
  assumes "loads_as rt f d" and "consistent n d"
  shows "\<exists>u d'. mark_done rt clk ids f = (Inr u, save_data d') \<and> consistent n d'
     \<and> list_all (\<lambda>t. completed t \<and> completed_at t \<noteq> JNull) u"
proof -
  let ?ch = "\<lambda>t. task_id t \<in> set ids \<and> \<not> completed t"
  from assms(2) have wf: "list_all (\<lambda>t. created_at t \<noteq> []) (tasks d)"
    and ts: "list_all timestamped (tasks d)"
    by (simp_all add: consistent_def wf_data_def)
  from mark_loop_wf [OF wf, of rt clk 0 ids] obtain ts' where
    ml: "mark_loop rt clk 0 ids (tasks d) =
       Inr (ts', map snd (filter (\<lambda>p. ?ch (fst p)) (zip (tasks d) ts')),
            0 + length (filter ?ch (tasks d)))"
    and len: "length ts' = length (tasks d)"
    and nth: "\<forall>i<length (tasks d). ts' ! i =
          (if ?ch (tasks d ! i)
           then (tasks d ! i)\<lparr>completed := True, completed_at := JStr (now_iso (clk (0 +
                  length (filter ?ch (take i (tasks d))))))\<rparr>
           else tasks d ! i)"
    by blast
  from ts nth have pw: "\<forall>i<length (tasks d). task_id (ts' ! i) = task_id (tasks d ! i)
          \<and> created_at (ts' ! i) = created_at (tasks d ! i) \<and> timestamped (ts' ! i)"
    by (auto simp: list_all_length timestamped_def)
  have g: "consistent n (d\<lparr>tasks := ts'\<rparr>)"
    using assms(2) len pw by (rule good_pointwise)
  have u: "list_all (\<lambda>t. completed t \<and> completed_at t \<noteq> JNull)
      (map snd (filter (\<lambda>p. ?ch (fst p)) (zip (tasks d) ts')))"
  proof -
    have "completed t' \<and> completed_at t' \<noteq> JNull"
      if "(t, t') \<in> set (zip (tasks d) ts')" and "?ch t" for t t'
    proof -
      from that(1) obtain i where "i < length (tasks d)" "tasks d ! i = t" "ts' ! i = t'"
        by (auto simp: in_set_zip)
      with nth that(2) show ?thesis by auto
    qed
    then show ?thesis by (auto simp: list_all_iff)
  qed
  from ml holds_load [OF assms(1), of clk]
  have "mark_done rt clk ids f =
      (Inr (map snd (filter (\<lambda>p. ?ch (fst p)) (zip (tasks d) ts'))), save_data (d\<lparr>tasks := ts'\<rparr>))"
    by (simp add: mark_done_def)
  with g u show ?thesis by blast
qed

lemma edit_loop_Some:
  "edit_loop upd i ts = Some (r, ts') \<Longrightarrow>
   \<exists>pre t post. ts = pre @ t # post \<and> i \<notin> task_id ` set pre \<and> task_id t = i
      \<and> r = upd t \<and> ts' = pre @ upd t # post"
proof (induction ts arbitrary: ts')
  case Nil
  then show ?case by simp
next
  case (Cons x xs)
  show ?case
  proof (cases "task_id x = i")
    case True
    with Cons.prems have "x # xs = [] @ x # xs \<and> i \<notin> task_id ` set [] \<and> task_id x = i
      \<and> r = upd x \<and> ts' = [] @ upd x # xs"
      by auto
    then show ?thesis by blast
  next
    case False
    with Cons.prems obtain xs' where l: "edit_loop upd i xs = Some (r, xs')" and t: "ts' = x # xs'"
      by (auto split: option.splits)
    from Cons.IH [OF l] obtain pre t post where
      "xs = pre @ t # post" "i \<notin> task_id ` set pre" "task_id t = i" "r = upd t"
      "xs' = pre @ upd t # post"
      by blast
    with False t have "x # xs = (x # pre) @ t # post \<and> i \<notin> task_id ` set (x # pre) \<and> task_id t = i
      \<and> r = upd t \<and> ts' = (x # pre) @ upd t # post"
      by auto
    then show ?thesis by blast
  qed
qed

lemma timestamped_edit_raw:
  "timestamped t \<Longrightarrow> timestamped (edit_raw new_title new_due clear_due undone t)"
  by (auto simp: timestamped_def edit_raw_fields)

lemma good_edit:
  assumes "consistent n d" and "tasks d = pre @ t # post"
  shows "consistent n (d\<lparr>tasks := pre @ edit_raw new_title new_due clear_due undone t # post\<rparr>)"
  using assms
  by (auto simp: consistent_def wf_data_def edit_raw_fields timestamped_edit_raw)

lemma step_edit:
  assumes "loads_as rt f d" and "consistent n d"
  shows "snd (edit_task rt clk i new_title new_due clear_due undone f) = f
     \<or> (\<exists>d'. snd (edit_task rt clk i new_title new_due clear_due undone f) = save_data d' \<and> consistent n d')"
proof (cases "edit_loop (edit_raw new_title new_due clear_due undone) i (tasks d)")
  case None
  with holds_load [OF assms(1), of clk] show ?thesis
    by (simp add: edit_task_def)
next
  case (Some p)
  obtain r ts' where p: "p = (r, ts')" by (cases p)
  from edit_loop_Some [OF Some [unfolded p]] obtain pre t post where
    ts: "tasks d = pre @ t # post" and ts': "ts' = pre @ edit_raw new_title new_due clear_due undone t # post"
    by blast
  from good_edit [OF assms(2) ts] ts' have "consistent n (d\<lparr>tasks := ts'\<rparr>)" by simp
  moreover from Some p holds_load [OF assms(1), of clk]
  have "snd (edit_task rt clk i new_title new_due clear_due undone f) = save_data (d\<lparr>tasks := ts'\<rparr>)"
    by (simp add: edit_task_def Let_def split: sum.splits)
  ultimately show ?thesis by blast
qed

lemma edit_result:
  assumes "loads_as rt f d" and "consistent n d"
    and "edit_task rt clk i new_title new_due clear_due undone f = (Inr (Some r), g)"
  shows "\<exists>t\<in>set (tasks d). r = edit_raw new_title new_due clear_due undone t"
proof (cases "edit_loop (edit_raw new_title new_due clear_due undone) i (tasks d)")
  case None
  with holds_load [OF assms(1), of clk] assms(3) show ?thesis
    by (simp add: edit_task_def)
next
  case (Some p)
  obtain r' ts' where p: "p = (r', ts')" by (cases p)
  from edit_loop_Some [OF Some [unfolded p]] obtain pre t post where
    ts: "tasks d = pre @ t # post" and r': "r' = edit_raw new_title new_due clear_due undone t"
    by blast
  from assms(2) ts have "created_at t \<noteq> []" by (simp add: consistent_def wf_data_def)
  with r' have "from_dict rt clk 0 (asdict r') = Inr (r', 0)"
    by (simp add: from_dict_asdict edit_raw_fields)
  with Some p holds_load [OF assms(1), of clk] assms(3) have "r = r'"
    by (simp add: edit_task_def Let_def)
  with r' ts show ?thesis by auto
qed

lemma upto_snoc: "0 \<le> n \<Longrightarrow> [1..n + 1] = [1..n] @ [n + 1]"
  by (simp add: upto_rec2)

lemma inv_step:
  assumes "run_inv rt s"
  shows "run_inv rt (step rt clk c s)"
proof -
  obtain issued f where s: "s = (issued, f)" by (cases s)
  let ?n = "int (length issued)"
  from assms s obtain d where iss: "issued = [1..?n]" and h: "loads_as rt f d" and g: "consistent ?n d"
    by (auto simp: run_inv_def)
  have keep: "run_inv rt (issued, save_data d')" if "consistent ?n d'" for d'
    using that iss holds_save [OF good_wf [OF that]] by (auto simp: run_inv_def)
  have same: "run_inv rt (issued, f)" using assms s by simp
  show ?thesis
  proof (cases c)
    case (Add new_title new_due)
    from step_add [OF h g, of clk new_title new_due] obtain t d' where
      a: "add_task rt clk new_title new_due f = (Inr t, save_data d')" and t: "task_id t = ?n + 1"
      and g': "consistent (?n + 1) d'"
      by blast
    from iss have "issued @ [?n + 1] = [1..?n + 1]" by (simp add: upto_snoc)
    with g' holds_save [OF good_wf [OF g'], of rt] have "run_inv rt (issued @ [?n + 1], save_data d')"
      by (auto simp: run_inv_def)
    with Add s a t show ?thesis by simp
  next
    case (MarkDone ids)
    from step_mark [OF h g, of clk ids] obtain u d' where
      "mark_done rt clk ids f = (Inr u, save_data d')" "consistent ?n d'"
      by blast
    with MarkDone s keep show ?thesis by simp
  next
    case (Delete ids)
    from step_delete [OF h g, of clk ids] obtain d' where
      "snd (delete_tasks rt clk ids f) = save_data d'" "consistent ?n d'"
      by blast
    with Delete s keep show ?thesis by simp
  next
    case (Edit i new_title new_due clear_due undone)
    from step_edit [OF h g, of clk i new_title new_due clear_due undone] Edit s keep same
    show ?thesis by auto
  next
    case (Clear mode)
    consider "mode = ''all''" | "mode = ''done''" | "mode \<noteq> ''all'' \<and> mode \<noteq> ''done''"
      by blast
    then show ?thesis
    proof cases
      case 1
      with step_clear [OF h g, of mode clk] obtain m d' where
        c: "clear_tasks rt clk mode f = (Inr m, save_data d')" and g': "consistent 0 d'"
        by blast
      from g' holds_save [OF good_wf [OF g'], of rt] have "run_inv rt ([], save_data d')"
        by (auto simp: run_inv_def)
      with Clear s c 1 show ?thesis by simp
    next
      case 2
      with step_clear [OF h g, of mode clk] obtain m d' where
        c: "clear_tasks rt clk mode f = (Inr m, save_data d')" and g': "consistent ?n d'"
        by blast
      with Clear s 2 keep show ?thesis by simp
    next
      case 3
      with step_clear [OF h g, of mode clk] have "clear_tasks rt clk mode f = (Inl ValueError, f)"
        by blast
      with Clear s same show ?thesis by simp
    qed
  qed
qed

lemma inv_run: "run_inv rt s \<Longrightarrow> run_inv rt (run rt cs s)"
proof (induction cs arbitrary: s)
  case Nil
  then show ?case by simp
next
  case (Cons x cs)
  obtain clk c where x: "x = (clk, c)" by (cases x)
  from Cons.IH [OF inv_step [OF Cons.prems, of clk c]] x show ?case by simp
qed

lemma inv_reached: "run rt cs ([], Absent) = (issued, f) \<Longrightarrow> run_inv rt (issued, f)"
  using inv_run [OF inv_start, of rt cs] by simp

lemma inv_ids:
  assumes "issued = [1..int (length issued)]" and "consistent (int (length issued)) d"
  shows "set (map task_id (tasks d)) \<subseteq> set issued"
proof
  fix x assume "x \<in> set (map task_id (tasks d))"
  with assms(2) have "1 \<le> x \<and> x \<le> int (length issued)"
    by (auto simp: consistent_def list_all_iff)
  then have "x \<in> set [1..int (length issued)]" by simp
  with assms(1) show "x \<in> set issued" by simp
qed

text \<open>
  Claim C1. After any sequence of add, mark-done, delete, edit and clear calls from the
  absent file, the ids issued since the last \<^verbatim>\<open>clear_tasks("all")\<close> are 1, 2, ..., in call
  order (so they are distinct and strictly increasing), \<^verbatim>\<open>next_id\<close> is one more than their
  number, and the ids of the stored tasks increase strictly and are among the issued ones.
  The next \<open>add_task\<close> issues \<^verbatim>\<open>next_id\<close>, an id not issued before, and increments
  \<^verbatim>\<open>next_id\<close>; \<open>delete_tasks\<close> and \<^verbatim>\<open>clear_tasks("done")\<close> leave \<^verbatim>\<open>next_id\<close> as it is;
  \<^verbatim>\<open>clear_tasks("all")\<close> sets it to 1 and the next \<open>add_task\<close> issues id 1 again.
\<close>

theorem ids_unique_monotone:
  assumes "run rt cs ([], Absent) = (issued, f)"
  shows "issued = [1..int (length issued)]
     \<and> (\<exists>d. (\<forall>c. load_data rt c f = Inr (d, 0)) \<and> next_id d = JInt (int (length issued) + 1)
           \<and> sorted_wrt (<) (map task_id (tasks d))
           \<and> set (map task_id (tasks d)) \<subseteq> set issued)
     \<and> (\<exists>t g d'. add_task rt clk new_title new_due f = (Inr t, g)
           \<and> task_id t = int (length issued) + 1 \<and> task_id t \<notin> set issued
           \<and> (\<forall>c. load_data rt c g = Inr (d', 0)) \<and> next_id d' = JInt (task_id t + 1))
     \<and> (\<exists>d'. (\<forall>c. load_data rt c (snd (delete_tasks rt clk ids f)) = Inr (d', 0))
           \<and> next_id d' = JInt (int (length issued) + 1))
     \<and> (\<exists>d'. (\<forall>c. load_data rt c (snd (clear_tasks rt clk ''done'' f)) = Inr (d', 0))
           \<and> next_id d' = JInt (int (length issued) + 1))
     \<and> (\<exists>d' t g. (\<forall>c. load_data rt c (snd (clear_tasks rt clk ''all'' f)) = Inr (d', 0))
           \<and> next_id d' = JInt 1
           \<and> add_task rt clk' new_title new_due (snd (clear_tasks rt clk ''all'' f)) = (Inr t, g)
           \<and> task_id t = 1)"
proof -
  let ?n = "int (length issued)"
  from inv_reached [OF assms] obtain d where iss: "issued = [1..?n]" and h: "loads_as rt f d"
    and g: "consistent ?n d"
    by (auto simp: run_inv_def)
  have 1: "\<exists>d. (\<forall>c. load_data rt c f = Inr (d, 0)) \<and> next_id d = JInt (?n + 1)
           \<and> sorted_wrt (<) (map task_id (tasks d))
           \<and> set (map task_id (tasks d)) \<subseteq> set issued"
    using h g inv_ids [OF iss g] by (auto simp: loads_as_def consistent_def)
  have 2: "\<exists>t g d'. add_task rt clk new_title new_due f = (Inr t, g)
           \<and> task_id t = ?n + 1 \<and> task_id t \<notin> set issued
           \<and> (\<forall>c. load_data rt c g = Inr (d', 0)) \<and> next_id d' = JInt (task_id t + 1)"
  proof -
    from step_add [OF h g, of clk new_title new_due] obtain t d' where
      a: "add_task rt clk new_title new_due f = (Inr t, save_data d')" and t: "task_id t = ?n + 1"
      and g': "consistent (?n + 1) d'"
      by blast
    from arg_cong [OF iss, of set] have "set issued = {1..?n}" by simp
    with t have "task_id t \<notin> set issued" by simp
    moreover from g' have "\<forall>c. load_data rt c (save_data d') = Inr (d', 0)"
      by (simp add: load_save good_wf)
    moreover from g' t have "next_id d' = JInt (task_id t + 1)" by (simp add: consistent_def)
    ultimately show ?thesis using a t by blast
  qed
  have 3: "\<exists>d'. (\<forall>c. load_data rt c (snd (delete_tasks rt clk ids f)) = Inr (d', 0))
           \<and> next_id d' = JInt (?n + 1)"
  proof -
    from step_delete [OF h g, of clk ids] obtain d' where
      "snd (delete_tasks rt clk ids f) = save_data d'" "consistent ?n d'"
      by blast
    then show ?thesis by (auto simp: load_save good_wf consistent_def)
  qed
  have 4: "\<exists>d'. (\<forall>c. load_data rt c (snd (clear_tasks rt clk ''done'' f)) = Inr (d', 0))
           \<and> next_id d' = JInt (?n + 1)"
  proof -
    from step_clear [OF h g, of "''done''" clk] obtain m d' where
      "clear_tasks rt clk ''done'' f = (Inr m, save_data d')" "consistent ?n d'"
      by blast
    then show ?thesis by (auto simp: load_save good_wf consistent_def)
  qed
  have 5: "\<exists>d' t g. (\<forall>c. load_data rt c (snd (clear_tasks rt clk ''all'' f)) = Inr (d', 0))
           \<and> next_id d' = JInt 1
           \<and> add_task rt clk' new_title new_due (snd (clear_tasks rt clk ''all'' f)) = (Inr t, g)
           \<and> task_id t = 1"
  proof -
    from step_clear [OF h g, of "''all''" clk] obtain m d' where
      c: "clear_tasks rt clk ''all'' f = (Inr m, save_data d')" and g': "consistent 0 d'"
      by blast
    from g' have h': "loads_as rt (save_data d') d'" by (simp add: holds_save good_wf)
    from step_add [OF h' g', of clk' new_title new_due] obtain t d'' where
      "add_task rt clk' new_title new_due (save_data d') = (Inr t, save_data d'')" "task_id t = 0 + 1"
      by blast
    with c g' h' show ?thesis by (auto simp: loads_as_def consistent_def)
  qed
  from iss 1 2 3 4 5 show ?thesis by blast
qed

text \<open>
  Claim C7. After any sequence of calls from the absent file, every stored task has
  \<^verbatim>\<open>completed_at\<close> if and only if it is completed. On such a file \<open>add_task\<close> creates a task
  that is not completed and has no \<^verbatim>\<open>completed_at\<close>, every task \<open>mark_done\<close> returns is
  completed and has \<^verbatim>\<open>completed_at\<close>, and the task \<open>edit_task\<close> returns with \<^verbatim>\<open>undone\<close>
  is not completed and has no \<^verbatim>\<open>completed_at\<close>.
\<close>

theorem completed_at_iff_completed:
  assumes "run rt cs ([], Absent) = (issued, f)"
  shows "(\<exists>d. (\<forall>c. load_data rt c f = Inr (d, 0))
            \<and> (\<forall>t\<in>set (tasks d). completed t \<longleftrightarrow> completed_at t \<noteq> JNull))
     \<and> (\<exists>t g. add_task rt clk new_title new_due f = (Inr t, g)
            \<and> \<not> completed t \<and> completed_at t = JNull)
     \<and> (\<exists>u g. mark_done rt clk ids f = (Inr u, g)
            \<and> (\<forall>t\<in>set u. completed t \<and> completed_at t \<noteq> JNull))
     \<and> (\<forall>t g. edit_task rt clk i edit_title edit_due clear_due True f = (Inr (Some t), g)
            \<longrightarrow> \<not> completed t \<and> completed_at t = JNull)"
proof -
  let ?n = "int (length issued)"
  from inv_reached [OF assms] obtain d where h: "loads_as rt f d" and g: "consistent ?n d"
    by (auto simp: run_inv_def)
  from g have ts: "\<forall>t\<in>set (tasks d). timestamped t" by (simp add: consistent_def list_all_iff)
  have 1: "\<exists>d. (\<forall>c. load_data rt c f = Inr (d, 0))
            \<and> (\<forall>t\<in>set (tasks d). completed t \<longleftrightarrow> completed_at t \<noteq> JNull)"
    using h ts by (auto simp: loads_as_def timestamped_def)
  have 2: "\<exists>t g. add_task rt clk new_title new_due f = (Inr t, g)
            \<and> \<not> completed t \<and> completed_at t = JNull"
    using step_add [OF h g, of clk new_title new_due] by blast
  have 3: "\<exists>u g. mark_done rt clk ids f = (Inr u, g)
            \<and> (\<forall>t\<in>set u. completed t \<and> completed_at t \<noteq> JNull)"
    using step_mark [OF h g, of clk ids] by (auto simp: list_all_iff)
  have 4: "\<not> completed t \<and> completed_at t = JNull"
    if "edit_task rt clk i edit_title edit_due clear_due True f = (Inr (Some t), g)" for t g
  proof -
    from edit_result [OF h g that] obtain t0 where "t0 \<in> set (tasks d)"
      "t = edit_raw edit_title edit_due clear_due True t0"
      by blast
    with ts show ?thesis by (auto simp: edit_raw_fields timestamped_def)
  qed
  from 1 2 3 4 show ?thesis by blast
qed

lemma run_calls0: "run rt0 calls0 ([], Absent) = ([1, 2, 3], final0)"
  by code_simp

lemma run_calls1: "run rt0 calls1 ([], Absent) = ([1, 2], save_data data3)"
  by code_simp

theorem ids_unique_monotone_witness:
  "run rt0 calls0 ([], Absent) = ([1, 2, 3], final0)
   \<and> (\<exists>t g. add_task rt0 clk0 ''d'' None final0 = (Inr t, g) \<and> task_id t = 4
         \<and> task_id t \<notin> set [1, 2, 3])
   \<and> (\<exists>t g. add_task rt0 clk0 ''d'' None (snd (clear_tasks rt0 clk0 ''all'' final0)) = (Inr t, g)
         \<and> task_id t = 1)"
  using ids_unique_monotone [OF run_calls0, of clk0 "''d''" None "[]" clk0] run_calls0
  by auto

theorem completed_at_iff_completed_witness:
  "run rt0 calls1 ([], Absent) = ([1, 2], save_data data3)
   \<and> load_data rt0 clk0 (save_data data3) = Inr (data3, 0)
   \<and> map (\<lambda>t. (completed t, completed_at t)) (tasks data3) =
       [(False, JNull), (True, JStr ''2025-09-01T12:00:00Z'')]"
proof -
  from completed_at_iff_completed [OF run_calls1, of clk0 "''d''" None "[]" 1 None None False]
  obtain d where "\<forall>c. load_data rt0 c (save_data data3) = Inr (d, 0)"
    and "\<forall>t\<in>set (tasks d). completed t \<longleftrightarrow> completed_at t \<noteq> JNull"
    by blast
  moreover have "load_data rt0 clk0 (save_data data3) = Inr (data3, 0)"
    by (simp add: load_save wf_data_def data3_def other_keys_def)
  ultimately show ?thesis using run_calls1 by (auto simp: data3_def)
qed

end
